theory Spec2Isabelle
  imports
    Main
    "HOL-Library.Char_ord"
    "HOL-Library.List_Lexorder"
    "HOL-Library.Sublist"
    "HOL-Library.Multiset"
begin


text \<open>
  A model of gitree, a command that finds the Git repositories beneath a directory,
  extracts the status of each and prints them as a tree: the data model, the status
  extraction with its commit counting, the tree builder and renderer, the repository
  scanner over a file system, and the concurrent batch extraction; then the properties
  proved of them.
\<close>

section \<open>Data model (package models)\<close>

text \<open>
  A file path is kept in the form \<open>filepath.Clean\<close> normalises to: whether it is
  absolute, and its list of components. The empty relative path stands for both
  \<open>""\<close> and \<open>"."\<close>.
\<close>

datatype path = FsPath (IsAbs: bool) (elems: "string list")

record GitStatus =
  Branch :: string
  IsDetached :: bool
  HasRemote :: bool
  Ahead :: int
  Behind :: int
  HasStashes :: bool
  HasChanges :: bool
  Error :: string

text \<open>The Go zero value \<open>&models.GitStatus{}\<close>.\<close>

definition GitStatus_zero :: GitStatus where
  "GitStatus_zero =
     \<lparr>Branch = [], IsDetached = False, HasRemote = False, Ahead = 0, Behind = 0,
      HasStashes = False, HasChanges = False, Error = []\<rparr>"

text \<open>
  The field \<open>Error\<close> of \<open>Repository\<close> is named \<open>Error_repo\<close>, and its field
  \<open>GitStatus\<close> is named \<open>GitStatus_repo\<close>: the plain names belong to the record above.
  A Go \<open>error\<close> is its message, \<open>None\<close> for \<open>nil\<close>.
\<close>

record Repository =
  Path :: path
  Name :: string
  IsBare :: bool
  IsSymlink :: bool
  GitStatus_repo :: "GitStatus option"
  Error_repo :: "string option"
  HasTimeout :: bool

definition Repository_Validate :: "Repository \<Rightarrow> string option" where
  "Repository_Validate r =
     (if Path r = FsPath False [] then
        Some ''path cannot be empty: repository validation error''
      else if \<not> IsAbs (Path r) then
        Some ''path must be absolute: repository validation error''
      else if Name r = [] then
        Some ''name cannot be empty: repository validation error''
      else if IsBare r \<and> GitStatus_repo r \<noteq> None \<and> HasChanges (the (GitStatus_repo r)) then
        Some ''bare repository cannot have uncommitted changes: repository validation error''
      else None)"

definition GitStatus_Validate :: "GitStatus \<Rightarrow> string option" where
  "GitStatus_Validate g =
     (if Branch g = [] then
        Some ''branch cannot be empty: git status validation error''
      else if IsDetached g \<and> Branch g \<noteq> ''DETACHED'' then
        Some ''detached HEAD must have branch = 'DETACHED': git status validation error''
      else if \<not> HasRemote g \<and> (Ahead g \<noteq> 0 \<or> Behind g \<noteq> 0) then
        Some ''no remote but ahead/behind counts are non-zero: git status validation error''
      else if Ahead g < 0 \<or> Behind g < 0 then
        Some ''ahead/behind counts cannot be negative: git status validation error''
      else None)"

section \<open>Status extraction (package gitstatus)\<close>

subsection \<open>The repository access library\<close>

text \<open>
  What the code asks of go-git, as data. A commit identifier is a number (the zero hash,
  which \<open>Log\<close> would replace by the head, is not the identifier of a stored commit);
  the object store lists each commit with its parent identifiers; the reference store
  lists names with the identifiers they point to. \<open>Head\<close>, \<open>Remotes\<close> and
  \<open>Worktree_of\<close> hold what the methods \<open>Head\<close>, \<open>Remotes\<close> and \<open>Worktree\<close> return, an
  error being its message. The counts \<open>Ahead\<close> and \<open>Behind\<close> are Go integers of 64
  bits; they are bounded by the number of commits in the store and kept as integers
  without a bound.
\<close>

type_synonym hash = nat

type_synonym store = "(hash \<times> hash list) list"

datatype StatusCode =
  Unmodified | Untracked | Modified | Added | Deleted | Renamed | Copied | UpdatedButUnmerged

record FileStatus =
  Staging :: StatusCode
  Worktree :: StatusCode

text \<open>
  \<open>repo.Worktree()\<close> fails with \<open>ErrIsBareRepository\<close> on a bare repository, or with
  another error; otherwise it gives a worktree with its exclude patterns, whose
  \<open>Status()\<close> depends on the patterns in force.
\<close>

datatype worktree =
  IsBareRepository
  | WorktreeError string
  | WorktreeOk "string list" "string list \<Rightarrow> string + (string \<times> FileStatus) list"

record gitrepo =
  Head :: "string + (string \<times> hash)"
  References :: "(string \<times> hash) list"
  Remotes :: "string + string list"
  Objects :: store
  Worktree_of :: worktree

definition ErrIsBareRepository :: string where
  "ErrIsBareRepository = ''worktree not available in a bare repository''"

definition errNoRemotes :: string where
  "errNoRemotes = ''no remotes configured''"

definition IsBranch :: "string \<Rightarrow> bool" where
  "IsBranch n = prefix ''refs/heads/'' n"

text \<open>\<open>ReferenceName.Short\<close>: the name without its \<open>refs/heads/\<close>, \<open>refs/tags/\<close> or
  \<open>refs/remotes/\<close> prefix.\<close>

definition Short :: "string \<Rightarrow> string" where
  "Short n =
     (if prefix ''refs/heads/'' n then drop 11 n
      else if prefix ''refs/tags/'' n then drop 10 n
      else if prefix ''refs/remotes/'' n then drop 13 n
      else n)"

definition NewRemoteReferenceName :: "string \<Rightarrow> string \<Rightarrow> string" where
  "NewRemoteReferenceName remote branch = ''refs/remotes/'' @ remote @ ''/'' @ branch"

definition Reference :: "gitrepo \<Rightarrow> string \<Rightarrow> string + (string \<times> hash)" where
  "Reference repo n =
     (case map_of (References repo) n of
        None \<Rightarrow> Inl ''reference not found''
      | Some h \<Rightarrow> Inr (n, h))"

definition CommitObject :: "gitrepo \<Rightarrow> hash \<Rightarrow> string + hash" where
  "CommitObject repo h =
     (case map_of (Objects repo) h of
        None \<Rightarrow> Inl ''object not found''
      | Some ps \<Rightarrow> Inr h)"

text \<open>
  \<open>repo.Log\<close> in its default order is go-git's pre-order commit iterator: a stack of
  parents still to visit and the set of commits already seen. A commit already seen is
  skipped; a commit missing from the object store ends the iteration with an error
  (\<open>None\<close>). The commits are returned in the order the iterator yields them.
\<close>

function log_iter :: "store \<Rightarrow> hash list \<Rightarrow> hash list \<Rightarrow> hash list option" where
  "log_iter st [] seen = Some (rev seen)"
| "log_iter st (h # stack) seen =
     (if h \<in> set seen then log_iter st stack seen
      else case map_of st h of
             None \<Rightarrow> None
           | Some ps \<Rightarrow> log_iter st (ps @ stack) (h # seen))"
  by pat_completeness auto
termination
proof (relation "measures [\<lambda>(st, stack, seen). card (dom (map_of st) - set seen),
                          \<lambda>(st, stack, seen). length stack]")
  show "wf (measures [\<lambda>(st, stack, seen). card (dom (map_of st) - set seen),
                      \<lambda>(st, stack, seen). length stack])"
    by simp
next
  fix st :: store and h :: hash and stack seen :: "hash list"
  assume "h \<in> set seen"
  then show "((st, stack, seen), (st, h # stack, seen))
      \<in> measures [\<lambda>(st, stack, seen). card (dom (map_of st) - set seen),
                   \<lambda>(st, stack, seen). length stack]"
    by simp
next
  fix st :: store and h :: hash and stack seen ps :: "hash list"
  assume h: "h \<notin> set seen" and ps: "map_of st h = Some ps"
  have fin: "finite (dom (map_of st) - set seen)"
    by (simp add: finite_dom_map_of)
  have mem: "h \<in> dom (map_of st) - set seen"
    using h ps by auto
  have eq: "dom (map_of st) - set (h # seen) = (dom (map_of st) - set seen) - {h}"
    by auto
  have "card (dom (map_of st) - set (h # seen)) < card (dom (map_of st) - set seen)"
    unfolding eq by (rule card_Diff1_less [OF fin mem])
  then show "((st, ps @ stack, h # seen), (st, h # stack, seen))
      \<in> measures [\<lambda>(st, stack, seen). card (dom (map_of st) - set seen),
                   \<lambda>(st, stack, seen). length stack]"
    by simp
qed

text \<open>\<open>repo.Log(&git.LogOptions{From: h})\<close> looks the starting commit up first.\<close>

definition Log :: "gitrepo \<Rightarrow> hash \<Rightarrow> string + hash" where
  "Log repo h = CommitObject repo h"

text \<open>\<open>iter.ForEach\<close>: the commits the callback is called with, or the iterator's error.\<close>

definition ForEach :: "gitrepo \<Rightarrow> hash \<Rightarrow> string + hash list" where
  "ForEach repo start =
     (case log_iter (Objects repo) [start] [] of
        None \<Rightarrow> Inl ''object not found''
      | Some cs \<Rightarrow> Inr cs)"

subsection \<open>The extraction steps\<close>

record ExtractOptions =
  Timeout :: int
  MaxConcurrency :: int
  Debug :: bool

definition DefaultOptions :: ExtractOptions where
  "DefaultOptions = \<lparr>Timeout = 10 * 1000000000, MaxConcurrency = 10, Debug = False\<rparr>"

text \<open>
  Each step takes the status built so far and returns it updated, with the step's
  error. Debug printing goes to the standard error stream and is left out.
\<close>

definition extractBranch :: "gitrepo \<Rightarrow> GitStatus \<Rightarrow> string option \<times> GitStatus" where
  "extractBranch repo status =
     (case Head repo of
        Inl e \<Rightarrow> (Some (''failed to get HEAD: '' @ e), status)
      | Inr (n, h) \<Rightarrow>
          if \<not> IsBranch n
          then (None, status\<lparr>IsDetached := True, Branch := ''DETACHED''\<rparr>)
          else (None, status\<lparr>IsDetached := False, Branch := Short n\<rparr>))"

definition extractRemote :: "gitrepo \<Rightarrow> GitStatus \<Rightarrow> string option \<times> GitStatus" where
  "extractRemote repo status =
     (case Remotes repo of
        Inl e \<Rightarrow> (Some e, status)
      | Inr rs \<Rightarrow>
          if length rs > 0
          then (None, status\<lparr>HasRemote := True\<rparr>)
          else (Some errNoRemotes, status\<lparr>HasRemote := False\<rparr>))"

text \<open>
  \<open>countCommitsBetween\<close>: the set \<open>toCommits\<close> is filled from the log of \<open>to\<close>, then
  the counter is bumped for every commit of the log of \<open>from\<close> that is not in it.
\<close>

definition countCommitsBetween :: "gitrepo \<Rightarrow> hash \<Rightarrow> hash \<Rightarrow> string + int" where
  "countCommitsBetween repo from to =
     (case Log repo to of
        Inl e \<Rightarrow> Inl e
      | Inr it \<Rightarrow>
         (case ForEach repo it of
            Inl e \<Rightarrow> Inl (''failed to iterate over commits: '' @ e)
          | Inr cs \<Rightarrow>
             (let toCommits = (\<lambda>c. c \<in> set cs) in
              case Log repo from of
                Inl e \<Rightarrow> Inl e
              | Inr it2 \<Rightarrow>
                 (case ForEach repo it2 of
                    Inl e \<Rightarrow> Inl e
                  | Inr ds \<Rightarrow>
                      Inr (fold (\<lambda>c count. if \<not> toCommits c then count + 1 else count) ds 0)))))"

definition extractAheadBehind :: "gitrepo \<Rightarrow> GitStatus \<Rightarrow> string option \<times> GitStatus" where
  "extractAheadBehind repo status =
     (case Head repo of
        Inl e \<Rightarrow> (Some e, status)
      | Inr (n, h) \<Rightarrow>
         (case Reference repo (NewRemoteReferenceName ''origin'' (Short n)) of
            Inl e \<Rightarrow> (Some e, status\<lparr>Ahead := 0, Behind := 0\<rparr>)
          | Inr (rn, rh) \<Rightarrow>
             (case CommitObject repo h of
                Inl e \<Rightarrow> (Some e, status)
              | Inr localCommit \<Rightarrow>
                 (case CommitObject repo rh of
                    Inl e \<Rightarrow> (Some e, status)
                  | Inr remoteCommit \<Rightarrow>
                     (case countCommitsBetween repo localCommit remoteCommit of
                        Inl e \<Rightarrow> (Some e, status)
                      | Inr ahead \<Rightarrow>
                         (case countCommitsBetween repo remoteCommit localCommit of
                            Inl e \<Rightarrow> (Some e, status\<lparr>Ahead := ahead\<rparr>)
                          | Inr behind \<Rightarrow>
                              (None, status\<lparr>Ahead := ahead, Behind := behind\<rparr>)))))))"

definition extractStashes :: "gitrepo \<Rightarrow> bool" where
  "extractStashes repo =
     (case Reference repo ''refs/stash'' of Inl e \<Rightarrow> False | Inr r \<Rightarrow> True)"

definition IsClean :: "(string \<times> FileStatus) list \<Rightarrow> bool" where
  "IsClean s = list_all (\<lambda>(f, st). Worktree st = Unmodified \<and> Staging st = Unmodified) s"

definition extractUncommittedChanges ::
  "gitrepo \<Rightarrow> GitStatus \<Rightarrow> ExtractOptions \<Rightarrow> string list \<Rightarrow> string option \<times> GitStatus" where
  "extractUncommittedChanges repo status opts ignorePatterns =
     (case Worktree_of repo of
        IsBareRepository \<Rightarrow> (Some ErrIsBareRepository, status\<lparr>HasChanges := False\<rparr>)
      | WorktreeError e \<Rightarrow>
          (Some (''failed to get worktree: '' @ e), status\<lparr>HasChanges := False\<rparr>)
      | WorktreeOk excludes wtStatus \<Rightarrow>
         (let excludes' = (if length ignorePatterns > 0 then excludes @ ignorePatterns
                           else excludes) in
          case wtStatus excludes' of
            Inl e \<Rightarrow> (Some (''failed to get worktree status: '' @ e), status)
          | Inr s \<Rightarrow> (None, status\<lparr>HasChanges := \<not> IsClean s\<rparr>)))"

text \<open>
  \<open>extractGitStatus\<close>, given what \<open>git.PlainOpen(repoPath)\<close> returned. An error that is
  \<open>ErrIsBareRepository\<close> is recognised by \<open>errors.Is\<close>; only the bare-repository
  branch of the step above returns it.
\<close>

definition extractGitStatus ::
  "string + gitrepo \<Rightarrow> ExtractOptions \<Rightarrow> string list \<Rightarrow> string + GitStatus" where
  "extractGitStatus opened opts ignorePatterns =
     (case opened of
        Inl e \<Rightarrow> Inl (''failed to open repository: '' @ e)
      | Inr repo \<Rightarrow>
         (let status = GitStatus_zero;
              status = (case extractBranch repo status of
                          (Some e, s) \<Rightarrow> s\<lparr>Branch := ''N/A'', Error := e\<rparr>
                        | (None, s) \<Rightarrow> s);
              status = (case extractRemote repo status of
                          (Some e, s) \<Rightarrow> s\<lparr>HasRemote := False\<rparr>
                        | (None, s) \<Rightarrow> s);
              status = (if HasRemote status
                        then (case extractAheadBehind repo status of
                                (Some e, s) \<Rightarrow> if Error s = [] then s\<lparr>Error := e\<rparr> else s
                              | (None, s) \<Rightarrow> s)
                        else status);
              status = status\<lparr>HasStashes := extractStashes repo\<rparr>;
              status = (case extractUncommittedChanges repo status opts ignorePatterns of
                          (Some e, s) \<Rightarrow>
                            if Worktree_of repo \<noteq> IsBareRepository
                            then (if Error s = [] then s\<lparr>Error := e\<rparr> else s)
                            else s
                        | (None, s) \<Rightarrow> s)
          in Inr status))"

text \<open>
  \<open>Extract\<close> runs \<open>extractGitStatus\<close> in a goroutine and waits in a \<open>select\<close> for its
  result, its error, or the context being done. Which of them the \<open>select\<close> takes is an
  input here: \<open>Some cause\<close> when the context (with the timeout applied, when there is
  one) was done first, \<open>None\<close> when the goroutine delivered first. The result is the
  pair of the status, which is never nil, and the error.
\<close>

datatype ctxerr = Canceled | DeadlineExceeded

definition ctxerr_text :: "ctxerr \<Rightarrow> string" where
  "ctxerr_text c = (case c of Canceled \<Rightarrow> ''context canceled''
                            | DeadlineExceeded \<Rightarrow> ''context deadline exceeded'')"

definition Extract ::
  "ctxerr option \<Rightarrow> string + gitrepo \<Rightarrow> ExtractOptions option \<Rightarrow> string list
     \<Rightarrow> GitStatus \<times> string option" where
  "Extract ctxDone opened opts ignorePatterns =
     (let opts' = (case opts of None \<Rightarrow> DefaultOptions | Some p \<Rightarrow> p) in
      case ctxDone of
        Some cause \<Rightarrow>
          (GitStatus_zero\<lparr>Branch := ''N/A'', Error := ''timeout''\<rparr>, Some (ctxerr_text cause))
      | None \<Rightarrow>
         (case extractGitStatus opened opts' ignorePatterns of
            Inr status \<Rightarrow> (status, None)
          | Inl err \<Rightarrow> (GitStatus_zero\<lparr>Branch := ''N/A'', Error := err\<rparr>, Some err)))"


subsection \<open>Reachability in the commit graph\<close>




subsection \<open>Example repositories\<close>

text \<open>A branch \<open>main\<close> two commits ahead of \<open>origin/main\<close>, with a clean working tree.\<close>

definition example_repo :: gitrepo where
  "example_repo =
     \<lparr>Head = Inr (''refs/heads/main'', 3),
      References = [(''refs/heads/main'', 3), (''refs/remotes/origin/main'', 1)],
      Remotes = Inr [''origin''],
      Objects = [(3, [2]), (2, [1]), (1, [])],
      Worktree_of = WorktreeOk [] (\<lambda>excludes. Inr [])\<rparr>"

text \<open>A repository with no remote configured.\<close>

definition example_repo_no_remote :: gitrepo where
  "example_repo_no_remote =
     \<lparr>Head = Inr (''refs/heads/main'', 1),
      References = [(''refs/heads/main'', 1)],
      Remotes = Inr [],
      Objects = [(1, [])],
      Worktree_of = WorktreeOk [] (\<lambda>excludes. Inr [])\<rparr>"

text \<open>A bare repository.\<close>

definition example_repo_bare :: gitrepo where
  "example_repo_bare =
     \<lparr>Head = Inr (''refs/heads/main'', 1),
      References = [(''refs/heads/main'', 1)],
      Remotes = Inr [],
      Objects = [(1, [])],
      Worktree_of = IsBareRepository\<rparr>"

text \<open>A record of a bare repository whose status has been made to claim changes.\<close>

definition example_dirty_status :: GitStatus where
  "example_dirty_status = GitStatus_zero\<lparr>Branch := ''main'', HasChanges := True\<rparr>"

definition example_bare_record :: Repository where
  "example_bare_record =
     \<lparr>Path = FsPath True [''srv'', ''bare.git''], Name = ''bare.git'', IsBare = True,
      IsSymlink = False, GitStatus_repo = Some example_dirty_status, Error_repo = None,
      HasTimeout = False\<rparr>"

section \<open>Tree nodes (package models)\<close>

text \<open>
  A tree node owns its repository record and its children. \<open>Build\<close> and the scanner's
  \<open>buildTree\<close> set the repository of every node they make, so the field is not
  optional here. The selector for the field \<open>Repository\<close> is \<open>Repository_of\<close>.
\<close>

datatype TreeNode =
  TreeNode (Repository_of: Repository) (Depth: int) (IsLast: bool)
    (Children: "TreeNode list") (RelativePath: string)

definition set_Depth :: "int \<Rightarrow> TreeNode \<Rightarrow> TreeNode" where
  "set_Depth d n = TreeNode (Repository_of n) d (IsLast n) (Children n) (RelativePath n)"

definition set_IsLast :: "bool \<Rightarrow> TreeNode \<Rightarrow> TreeNode" where
  "set_IsLast b n = TreeNode (Repository_of n) (Depth n) b (Children n) (RelativePath n)"

definition set_Children :: "TreeNode list \<Rightarrow> TreeNode \<Rightarrow> TreeNode" where
  "set_Children cs n = TreeNode (Repository_of n) (Depth n) (IsLast n) cs (RelativePath n)"

definition Name_of :: "TreeNode \<Rightarrow> string" where
  "Name_of n = Name (Repository_of n)"

text \<open>The Go zero value of a repository record with a path and a name.\<close>

definition Repository_named :: "path \<Rightarrow> string \<Rightarrow> Repository" where
  "Repository_named p n =
     \<lparr>Path = p, Name = n, IsBare = False, IsSymlink = False, GitStatus_repo = None,
      Error_repo = None, HasTimeout = False\<rparr>"

text \<open>
  \<open>SortChildren\<close>: sort the children by name, then set \<open>IsLast\<close> on each child to
  whether its index is the last one. Names are compared as Go compares strings, byte by
  byte. \<open>sort.Slice\<close> is not stable; the insertion sort used here gives children of the
  same name one of the orders the code may give them.
\<close>

fun mark_last :: "nat \<Rightarrow> nat \<Rightarrow> TreeNode list \<Rightarrow> TreeNode list" where
  "mark_last i n [] = []"
| "mark_last i n (child # rest) =
     set_IsLast (int i = int n - 1) child # mark_last (i + 1) n rest"

definition SortChildren :: "TreeNode \<Rightarrow> TreeNode" where
  "SortChildren t =
     (let sorted = sort_key Name_of (Children t)
      in set_Children (mark_last 0 (length sorted) sorted) t)"

section \<open>Building and rendering the tree (package tree)\<close>

record FormatOptions =
  ShowRoot :: bool
  RootLabel :: string

definition DefaultFormatOptions :: FormatOptions where
  "DefaultFormatOptions = \<lparr>ShowRoot = True, RootLabel = ''.''\<rparr>"

subsection \<open>Path functions\<close>

text \<open>\<open>strings.Join\<close> and \<open>strings.Split\<close> with a one-character separator.\<close>

fun strings_Join :: "string list \<Rightarrow> string \<Rightarrow> string" where
  "strings_Join [] sep = []"
| "strings_Join [x] sep = x"
| "strings_Join (x # y # zs) sep = x @ sep @ strings_Join (y # zs) sep"

fun strings_Split :: "string \<Rightarrow> char \<Rightarrow> string list" where
  "strings_Split [] sep = [[]]"
| "strings_Split (c # cs) sep =
     (if c = sep then [] # strings_Split cs sep
      else (case strings_Split cs sep of
              [] \<Rightarrow> [[c]]
            | part # parts \<Rightarrow> (c # part) # parts))"

text \<open>
  \<open>strings.Contains\<close>: whether the second string occurs in the first.
\<close>

fun strings_Contains :: "string \<Rightarrow> string \<Rightarrow> bool" where
  "strings_Contains [] sub = (sub = [])"
| "strings_Contains (c # cs) sub = (prefix sub (c # cs) \<or> strings_Contains cs sub)"

text \<open>
  \<open>filepath.Join\<close> of a clean path and one more element: the element is appended, and
  the result cleaned again, so that an empty element or \<open>.\<close> leaves the path as it is
  and \<open>..\<close> removes the last component where there is one to remove.
\<close>

definition filepath_Join :: "path \<Rightarrow> string \<Rightarrow> path" where
  "filepath_Join p name =
     (if name = [] \<or> name = ''.'' then p
      else if name = ''..'' then
        (if elems p = [] then (if IsAbs p then p else FsPath False [''..''])
         else if last (elems p) = ''..'' then FsPath (IsAbs p) (elems p @ [''..''])
         else FsPath (IsAbs p) (butlast (elems p)))
      else FsPath (IsAbs p) (elems p @ [name]))"

text \<open>\<open>filepath.Base\<close>: the last component, \<open>/\<close> for the root and \<open>.\<close> for the empty path.\<close>

definition filepath_Base :: "path \<Rightarrow> string" where
  "filepath_Base p =
     (if elems p = [] then (if IsAbs p then ''/'' else ''.'') else last (elems p))"

text \<open>
  \<open>filepath.Rel\<close>: the target relative to the base. The common leading components are
  dropped, each component left of the base becomes \<open>..\<close>, and the rest of the target
  follows. It fails when only one of the two paths is absolute, or when the base is left
  with a leading \<open>..\<close>.
\<close>

fun drop_common :: "string list \<Rightarrow> string list \<Rightarrow> string list \<times> string list" where
  "drop_common (b # bs) (t # ts) = (if b = t then drop_common bs ts else (b # bs, t # ts))"
| "drop_common bs ts = (bs, ts)"

definition filepath_Rel :: "path \<Rightarrow> path \<Rightarrow> string + string" where
  "filepath_Rel base targ =
     (if targ = base then Inr ''.''
      else if IsAbs base \<noteq> IsAbs targ then Inl ''Rel: can't make relative''
      else (case drop_common (elems base) (elems targ) of
              (b, t) \<Rightarrow>
                if b \<noteq> [] \<and> hd b = ''..'' then Inl ''Rel: can't make relative''
                else Inr (strings_Join (replicate (length b) ''..'' @ t) ''/'')))"

subsection \<open>Build\<close>

text \<open>
  \<open>insertIntoTree\<close> walks down from the root along the parts of the relative path but
  the last, entering the first child that has the part as its name or appending a new
  directory node when there is none, and appends the repository's node at the end of the
  walk. The Go code moves a pointer down the tree and changes the nodes in place; here
  the path walked is rebuilt on the way back. The arguments \<open>seen\<close> and \<open>currentPath\<close>
  are the parts already passed (\<open>parts[:i]\<close>) and the path of the current node.
\<close>

fun find_child :: "string \<Rightarrow> TreeNode list \<Rightarrow> nat option" where
  "find_child part [] = None"
| "find_child part (child # rest) =
     (if Name_of child = part then Some 0
      else map_option Suc (find_child part rest))"

fun insert_parts ::
  "string list \<Rightarrow> path \<Rightarrow> string list \<Rightarrow> Repository \<Rightarrow> string \<Rightarrow> TreeNode \<Rightarrow> TreeNode" where
  "insert_parts seen currentPath (part # next # rest) repo relPath current =
     (let currentPath' = filepath_Join currentPath part in
      case find_child part (Children current) of
        Some i \<Rightarrow>
          set_Children
            ((Children current)
               [i := insert_parts (seen @ [part]) currentPath' (next # rest) repo relPath
                       (Children current ! i)])
            current
      | None \<Rightarrow>
          (let newNode = TreeNode (Repository_named currentPath' part) 0 False []
                           (strings_Join (seen @ [part]) ''/'')
           in set_Children
                (Children current @
                   [insert_parts (seen @ [part]) currentPath' (next # rest) repo relPath newNode])
                current))"
| "insert_parts seen currentPath parts repo relPath current =
     set_Children (Children current @ [TreeNode repo 0 False [] relPath]) current"

definition insertIntoTree :: "TreeNode \<Rightarrow> Repository \<Rightarrow> string \<Rightarrow> path \<Rightarrow> TreeNode" where
  "insertIntoTree root repo relPath rootPath =
     insert_parts [] rootPath (strings_Split relPath CHR ''/'') repo relPath root"

function sortTree :: "TreeNode \<Rightarrow> TreeNode" where
  "sortTree node =
     (let node' = SortChildren node
      in set_Children
           (map (\<lambda>child. sortTree (set_Depth (Depth node' + 1) child)) (Children node'))
           node')"
  by pat_completeness auto
termination
proof (relation "measure size")
  show "wf (measure size)" by simp
next
  fix node node' child :: TreeNode
  assume n: "node' = SortChildren node" and c: "child \<in> set (Children node')"
  have sz: "size (set_IsLast b x) = size x" for b x
    by (cases x) (simp add: set_IsLast_def)
  have ml: "y \<in> set (mark_last i k xs) \<Longrightarrow> \<exists>x \<in> set xs. size y = size x" for y i k xs
    by (induction xs arbitrary: i) (auto simp: sz)
  from n c have "child \<in> set (mark_last 0 (length (Children node)) (sort_key Name_of (Children node)))"
    by (simp add: SortChildren_def Let_def set_Children_def)
  from ml [OF this] obtain x where x: "x \<in> set (Children node)" and s: "size child = size x"
    by auto
  have "size x < size node"
    using x by (cases node) (auto simp: less_Suc_eq_le size_list_estimation')
  moreover have "size (set_Depth (Depth node' + 1) child) = size child"
    by (cases child) (simp add: set_Depth_def)
  ultimately show "(set_Depth (Depth node' + 1) child, node) \<in> measure size"
    using s by simp
qed

declare sortTree.simps [simp del]

text \<open>
  \<open>Build\<close>. A nil repository list is \<open>None\<close>. A repository whose path cannot be made
  relative to the root is skipped.
\<close>

definition Build :: "path \<Rightarrow> Repository list option \<Rightarrow> FormatOptions option \<Rightarrow> TreeNode" where
  "Build rootPath repos opts =
     (let opts' = (case opts of None \<Rightarrow> DefaultFormatOptions | Some p \<Rightarrow> p);
          root = TreeNode (Repository_named rootPath (RootLabel opts')) 0 False []
                   (RootLabel opts')
      in case repos of
           None \<Rightarrow> root
         | Some rs \<Rightarrow>
             sortTree
               (fold (\<lambda>repo root.
                        case filepath_Rel rootPath (Path repo) of
                          Inl err \<Rightarrow> root
                        | Inr relPath \<Rightarrow> insertIntoTree root repo relPath rootPath)
                     rs root))"

subsection \<open>Format\<close>

text \<open>
  The four colour functions of package models are package-level values whose output
  depends on whether colour is enabled; they are a parameter here.
\<close>

record palette =
  grayColor :: "string \<Rightarrow> string"
  yellowColor :: "string \<Rightarrow> string"
  greenColor :: "string \<Rightarrow> string"
  redColor :: "string \<Rightarrow> string"

text \<open>With colours disabled the colour functions return their argument.\<close>

definition no_color :: palette where
  "no_color = \<lparr>grayColor = (\<lambda>s. s), yellowColor = (\<lambda>s. s), greenColor = (\<lambda>s. s),
                redColor = (\<lambda>s. s)\<rparr>"

text \<open>\<open>%d\<close>: the decimal digits of an integer.\<close>

fun digits :: "nat \<Rightarrow> string" where
  "digits n = (if n < 10 then [char_of (48 + n)]
               else digits (n div 10) @ [char_of (48 + n mod 10)])"

declare digits.simps [simp del]

definition Sprintf_d :: "int \<Rightarrow> string" where
  "Sprintf_d i = (if i < 0 then ''-'' @ digits (nat (- i)) else digits (nat i))"

text \<open>The symbols of the output, in UTF-8.\<close>

definition sym_up :: string where
  "sym_up = [CHR 0xE2, CHR 0x86, CHR 0x91]"

definition sym_down :: string where
  "sym_down = [CHR 0xE2, CHR 0x86, CHR 0x93]"

definition sym_circle :: string where
  "sym_circle = [CHR 0xE2, CHR 0x97, CHR 0x8B]"

definition connector_mid :: string where
  "connector_mid = [CHR 0xE2, CHR 0x94, CHR 0x9C, CHR 0xE2, CHR 0x94, CHR 0x80,
                    CHR 0xE2, CHR 0x94, CHR 0x80] @ '' ''"

definition connector_last :: string where
  "connector_last = [CHR 0xE2, CHR 0x94, CHR 0x94, CHR 0xE2, CHR 0x94, CHR 0x80,
                     CHR 0xE2, CHR 0x94, CHR 0x80] @ '' ''"

definition prefix_bar :: string where
  "prefix_bar = [CHR 0xE2, CHR 0x94, CHR 0x82] @ ''   ''"

definition newline :: string where
  "newline = [CHR 0x0A]"

definition GitStatus_Format :: "palette \<Rightarrow> GitStatus \<Rightarrow> string" where
  "GitStatus_Format col g =
     (let parts = [if Branch g = ''main'' \<or> Branch g = ''master''
                   then grayColor col (Branch g) else yellowColor col (Branch g)];
          parts = (if HasRemote g
                   then (let parts = (if Ahead g > 0
                                      then parts @ [greenColor col (sym_up @ Sprintf_d (Ahead g))]
                                      else parts)
                         in if Behind g > 0
                            then parts @ [redColor col (sym_down @ Sprintf_d (Behind g))]
                            else parts)
                   else parts @ [grayColor col sym_circle]);
          parts = (if HasStashes g then parts @ [redColor col ''$''] else parts);
          parts = (if HasChanges g then parts @ [redColor col ''*''] else parts);
          result = (if length parts = 1
                    then grayColor col ''[['' @ '' '' @ hd parts @ '' '' @ grayColor col '']]''
                    else (let separator = '' '' @ grayColor col ''|'' @ '' '';
                              statusParts = strings_Join (tl parts) '' ''
                          in grayColor col ''[['' @ '' '' @ hd parts @ separator @ statusParts
                               @ '' '' @ grayColor col '']]''))
      in if Error g \<noteq> [] then result @ '' error'' else result)"

text \<open>
  \<open>formatNode\<close> writes to a string builder; here it returns what it writes. The loop
  over the children carries the index and the number of children, as the code's test
  \<open>i == len(node.Children)-1\<close> needs them.
\<close>

fun formatNode :: "palette \<Rightarrow> TreeNode \<Rightarrow> string \<Rightarrow> bool \<Rightarrow> string"
  and formatChildren :: "palette \<Rightarrow> nat \<Rightarrow> nat \<Rightarrow> TreeNode list \<Rightarrow> string \<Rightarrow> string" where
  "formatNode col (TreeNode repo depth lastFlag children relPath) pre isLast =
     (let connector = (if isLast then connector_last else connector_mid);
          line = pre @ connector @ Name repo;
          line = (case GitStatus_repo repo of
                    Some st \<Rightarrow> line @ '' '' @ GitStatus_Format col st
                  | None \<Rightarrow> line);
          line = (if Error_repo repo \<noteq> None \<and> GitStatus_repo repo = None
                  then line @ '' error'' else line);
          line = (if HasTimeout repo \<and> GitStatus_repo repo \<noteq> None
                     \<and> Error (the (GitStatus_repo repo)) \<noteq> []
                  then line @ '' timeout'' else line);
          line = (if IsBare repo \<and> GitStatus_repo repo \<noteq> None
                  then (let statusStr = GitStatus_Format col (the (GitStatus_repo repo))
                        in if \<not> strings_Contains statusStr ''bare''
                           then line @ '' bare'' else line)
                  else line);
          childPrefix = (if isLast then pre @ ''    '' else pre @ prefix_bar)
      in line @ newline @ formatChildren col 0 (length children) children childPrefix)"
| "formatChildren col i n [] pre = []"
| "formatChildren col i n (child # rest) pre =
     formatNode col child pre (int i = int n - 1) @ formatChildren col (i + 1) n rest pre"

text \<open>\<open>Format\<close>; a nil root is \<open>None\<close>.\<close>

definition Format :: "palette \<Rightarrow> TreeNode option \<Rightarrow> FormatOptions option \<Rightarrow> string" where
  "Format col root opts =
     (let opts' = (case opts of None \<Rightarrow> DefaultFormatOptions | Some p \<Rightarrow> p) in
      case root of
        None \<Rightarrow> []
      | Some r \<Rightarrow>
          if length (Children r) = 0
          then (if ShowRoot opts' then RootLabel opts' @ newline else [])
          else (if ShowRoot opts' then RootLabel opts' @ newline else [])
                 @ formatChildren col 0 (length (Children r)) (Children r) [])"

subsection \<open>The command's output\<close>

text \<open>
  What \<open>main\<close> prints on the standard output once the scan has succeeded, from the
  repositories found and the statuses extracted: the notice when no repository was
  found; otherwise each status is attached to the repository the map \<open>repoMap\<close> holds
  for its path (the last one in the list with that path), the tree is built and
  formatted.
\<close>

fun populate :: "Repository list \<Rightarrow> (path \<Rightarrow> GitStatus option) \<Rightarrow> Repository list" where
  "populate [] statuses = []"
| "populate (repo # rest) statuses =
     (if Path repo \<in> Path ` set rest then repo
      else (case statuses (Path repo) of
              None \<Rightarrow> repo
            | Some status \<Rightarrow> repo\<lparr>GitStatus_repo := Some status\<rparr>))
     # populate rest statuses"

definition main_stdout ::
  "palette \<Rightarrow> path \<Rightarrow> Repository list \<Rightarrow> (path \<Rightarrow> GitStatus option) \<Rightarrow> string" where
  "main_stdout col cwd repositories statuses =
     (if length repositories = 0
      then ''No Git repositories found in this directory.'' @ newline
      else Format col (Some (Build cwd (Some (populate repositories statuses)) None)) None)"

subsection \<open>The invariant of a built tree\<close>



section \<open>Repository discovery (package scanner)\<close>

subsection \<open>The file system\<close>

text \<open>
  The file system is a tree. A node is a regular file, a symbolic link with its target
  (an absolute path, as a list of components), or a directory with the error
  \<open>os.ReadDir\<close> gives on it, if any, and its entries in the order \<open>os.ReadDir\<close> lists
  them (with an error, the entries it could read before the error). Every node has an
  inode number. The file system is not changed while the scan runs.
\<close>

datatype ferr = ErrNotExist | ErrPermission | ErrNotDir | ErrLoop | ErrOther

datatype fsnode =
  File nat
  | Symlink nat "string list"
  | Dir nat "ferr option" "(string \<times> fsnode) list"

text \<open>
  \<open>fs_root\<close> is the directory \<open>/\<close>; \<open>fs_cwd\<close> is the working directory, \<open>None\<close> when
  \<open>os.Getwd\<close> fails; \<open>stat_t\<close> tells whether \<open>info.Sys()\<close> is a \<open>*syscall.Stat_t\<close>.
\<close>

record filesys =
  fs_root :: fsnode
  fs_cwd :: "string list option"
  stat_t :: bool

record FileInfo =
  IsDir :: bool
  ModeSymlink :: bool
  Sys :: "nat option"

definition ferr_text :: "ferr \<Rightarrow> string" where
  "ferr_text e = (case e of
       ErrNotExist \<Rightarrow> ''no such file or directory''
     | ErrPermission \<Rightarrow> ''permission denied''
     | ErrNotDir \<Rightarrow> ''not a directory''
     | ErrLoop \<Rightarrow> ''too many levels of symbolic links''
     | ErrOther \<Rightarrow> ''input/output error'')"

definition os_IsPermission :: "ferr \<Rightarrow> bool" where
  "os_IsPermission e = (e = ErrPermission)"

text \<open>
  Path resolution from the root: \<open>at\<close> is the resolved path of the node \<open>cur\<close>, and the
  last argument the components still to walk. A symbolic link on the way is followed,
  the last component only when \<open>follow\<close> is set; \<open>hops\<close> bounds the number of links
  followed, as the system does.
\<close>

function resolve ::
  "fsnode \<Rightarrow> nat \<Rightarrow> bool \<Rightarrow> string list \<Rightarrow> fsnode \<Rightarrow> string list
     \<Rightarrow> ferr + (string list \<times> fsnode)" where
  "resolve rt hops follow at cur [] = Inr (at, cur)"
| "resolve rt hops follow at cur (name # rest) =
     (case cur of
        Dir ino rerr entries \<Rightarrow>
          (case map_of entries name of
             None \<Rightarrow> Inl ErrNotExist
           | Some n \<Rightarrow>
               (case n of
                  Symlink lino target \<Rightarrow>
                    if rest = [] \<and> \<not> follow then Inr (at @ [name], n)
                    else if hops = 0 then Inl ErrLoop
                    else resolve rt (hops - 1) follow [] rt (target @ rest)
                | File fino \<Rightarrow> resolve rt hops follow (at @ [name]) n rest
                | Dir dino derr dentries \<Rightarrow> resolve rt hops follow (at @ [name]) n rest))
      | File fino \<Rightarrow> Inl ErrNotDir
      | Symlink lino target \<Rightarrow> Inl ErrNotDir)"
  by pat_completeness auto
termination
  by (relation "measures [\<lambda>(rt, hops, follow, at, cur, rest). hops,
                          \<lambda>(rt, hops, follow, at, cur, rest). length rest]") auto

text \<open>
  \<open>filepath.Abs\<close>: an absolute path as it is, a relative one joined to the working
  directory and cleaned.
\<close>

definition filepath_Abs :: "filesys \<Rightarrow> path \<Rightarrow> string + path" where
  "filepath_Abs fs p =
     (if IsAbs p then Inr p
      else (case fs_cwd fs of
              None \<Rightarrow> Inl ''getwd: no such file or directory''
            | Some wd \<Rightarrow> Inr (fold (\<lambda>name q. filepath_Join q name) (elems p) (FsPath True wd))))"

definition info_of :: "filesys \<Rightarrow> fsnode \<Rightarrow> FileInfo" where
  "info_of fs n =
     (case n of
        File ino \<Rightarrow>
          \<lparr>IsDir = False, ModeSymlink = False, Sys = (if stat_t fs then Some ino else None)\<rparr>
      | Symlink ino target \<Rightarrow>
          \<lparr>IsDir = False, ModeSymlink = True, Sys = (if stat_t fs then Some ino else None)\<rparr>
      | Dir ino rerr entries \<Rightarrow>
          \<lparr>IsDir = True, ModeSymlink = False, Sys = (if stat_t fs then Some ino else None)\<rparr>)"

text \<open>
  \<open>os.Lstat\<close> and \<open>os.Stat\<close>, giving the node found; \<open>filepath.EvalSymlinks\<close>, giving
  the resolved path.
\<close>

definition lstat_node :: "filesys \<Rightarrow> path \<Rightarrow> ferr + fsnode" where
  "lstat_node fs p =
     (case filepath_Abs fs p of
        Inl e \<Rightarrow> Inl ErrNotExist
      | Inr a \<Rightarrow> (case resolve (fs_root fs) 40 False [] (fs_root fs) (elems a) of
                    Inl e \<Rightarrow> Inl e
                  | Inr (at, n) \<Rightarrow> Inr n))"

definition stat_node :: "filesys \<Rightarrow> path \<Rightarrow> ferr + fsnode" where
  "stat_node fs p =
     (case filepath_Abs fs p of
        Inl e \<Rightarrow> Inl ErrNotExist
      | Inr a \<Rightarrow> (case resolve (fs_root fs) 40 True [] (fs_root fs) (elems a) of
                    Inl e \<Rightarrow> Inl e
                  | Inr (at, n) \<Rightarrow> Inr n))"

definition os_Lstat :: "filesys \<Rightarrow> path \<Rightarrow> ferr + FileInfo" where
  "os_Lstat fs p = (case lstat_node fs p of Inl e \<Rightarrow> Inl e | Inr n \<Rightarrow> Inr (info_of fs n))"

definition os_Stat :: "filesys \<Rightarrow> path \<Rightarrow> ferr + FileInfo" where
  "os_Stat fs p = (case stat_node fs p of Inl e \<Rightarrow> Inl e | Inr n \<Rightarrow> Inr (info_of fs n))"

definition filepath_EvalSymlinks :: "filesys \<Rightarrow> path \<Rightarrow> ferr + path" where
  "filepath_EvalSymlinks fs p =
     (case filepath_Abs fs p of
        Inl e \<Rightarrow> Inl ErrNotExist
      | Inr a \<Rightarrow> (case resolve (fs_root fs) 255 True [] (fs_root fs) (elems a) of
                    Inl e \<Rightarrow> Inl e
                  | Inr (at, n) \<Rightarrow> Inr (FsPath True at)))"

text \<open>The text of a path.\<close>

definition path_String :: "path \<Rightarrow> string" where
  "path_String p =
     (if elems p = [] then (if IsAbs p then ''/'' else ''.'')
      else (if IsAbs p then ''/'' else []) @ strings_Join (elems p) ''/'')"

subsection \<open>The scanner\<close>

definition IsGitRepository :: "filesys \<Rightarrow> path \<Rightarrow> bool \<times> bool" where
  "IsGitRepository fs p =
     (let gitDir = filepath_Join p ''.git'' in
      if (case os_Stat fs gitDir of Inr info \<Rightarrow> IsDir info | Inl e \<Rightarrow> False)
      then (True, False)
      else
        (let headFile = filepath_Join p ''HEAD'';
             refsDir = filepath_Join p ''refs'';
             objsDir = filepath_Join p ''objects'';
             headExists = (case os_Stat fs headFile of Inr info \<Rightarrow> True | Inl e \<Rightarrow> False);
             refsExists = (case os_Stat fs refsDir of Inr info \<Rightarrow> IsDir info | Inl e \<Rightarrow> False);
             objsExists = (case os_Stat fs objsDir of Inr info \<Rightarrow> IsDir info | Inl e \<Rightarrow> False)
         in if headExists \<and> refsExists \<and> objsExists then (True, True) else (False, False)))"

text \<open>
  The state of a scan. The fields \<open>walked\<close> and \<open>markerChecks\<close> are not fields of the
  Go struct: they record what the scan does, the paths \<open>walkFunc\<close> has been called on
  and the paths \<open>IsGitRepository\<close> has been called on, both in order.
\<close>

record scanner =
  rootPath :: path
  repositories :: "Repository list"
  errors :: "string list"
  visited :: "nat set"
  dirCount :: int
  walked :: "path list"
  markerChecks :: "path list"

text \<open>
  The context: \<open>done_after\<close> is the number of calls of \<open>walkFunc\<close> after which the
  context is done, \<open>None\<close> when it is never done during the scan, and \<open>ctx_cause\<close> is what
  \<open>ctx.Err()\<close> then returns.
\<close>

record Context =
  done_after :: "nat option"
  ctx_cause :: ctxerr

definition ctx_Done :: "Context \<Rightarrow> nat \<Rightarrow> bool" where
  "ctx_Done ctx n = (case done_after ctx of None \<Rightarrow> False | Some k \<Rightarrow> k \<le> n)"

text \<open>What a walk function returns: nil, \<open>fs.SkipDir\<close>, or another error.\<close>

datatype walkerr = CtxErr ctxerr | FsErr ferr

datatype walkres = Continue | SkipDir | Fail walkerr

text \<open>\<open>shouldVisit\<close> returns its three results and the state.\<close>

definition shouldVisit ::
  "filesys \<Rightarrow> scanner \<Rightarrow> path \<Rightarrow> (bool \<times> bool \<times> ferr option) \<times> scanner" where
  "shouldVisit fs s p =
     (case os_Lstat fs p of
        Inl e \<Rightarrow> ((False, False, Some e), s)
      | Inr info \<Rightarrow>
         (let isSymlink = ModeSymlink info;
              checkInode = (\<lambda>info.
                 case Sys info of
                   None \<Rightarrow> ((True, isSymlink, None), s)
                 | Some inode \<Rightarrow>
                     if inode \<in> visited s then ((False, isSymlink, None), s)
                     else ((True, isSymlink, None), s\<lparr>visited := insert inode (visited s)\<rparr>))
          in if isSymlink
             then (case filepath_EvalSymlinks fs p of
                     Inl e \<Rightarrow> ((False, False, Some e), s)
                   | Inr actualPath \<Rightarrow>
                      (case os_Stat fs actualPath of
                         Inl e \<Rightarrow> ((False, False, Some e), s)
                       | Inr info' \<Rightarrow>
                           if \<not> IsDir info' then ((False, False, None), s)
                           else checkInode info'))
             else checkInode info))"

text \<open>
  \<open>walkFunc\<close>. The directory entry \<open>d\<close> is the node, \<open>None\<close> for nil; \<open>d.IsDir()\<close> holds
  of a directory node only, so not of a symbolic link.
\<close>

definition entry_IsDir :: "fsnode option \<Rightarrow> bool" where
  "entry_IsDir d = (case d of Some (Dir ino rerr entries) \<Rightarrow> True | _ \<Rightarrow> False)"

definition walkFunc ::
  "filesys \<Rightarrow> Context \<Rightarrow> scanner \<Rightarrow> path \<Rightarrow> fsnode option \<Rightarrow> ferr option
     \<Rightarrow> walkres \<times> scanner" where
  "walkFunc fs ctx s0 p d err =
     (let s = s0\<lparr>walked := walked s0 @ [p]\<rparr> in
      if ctx_Done ctx (length (walked s0)) then (Fail (CtxErr (ctx_cause ctx)), s)
      else (case err of
              Some e \<Rightarrow>
                if os_IsPermission e
                then (SkipDir,
                      s\<lparr>errors := errors s @
                           [''permission denied: '' @ path_String p @ '': permission denied'']\<rparr>)
                else (Fail (FsErr e), s)
            | None \<Rightarrow>
                if \<not> entry_IsDir d then (Continue, s)
                else
                  (let s = s\<lparr>dirCount := dirCount s + 1\<rparr> in
                   case shouldVisit fs s p of
                     ((visit, isSymlink, Some e), s) \<Rightarrow>
                       (SkipDir,
                        s\<lparr>errors := errors s @
                             [''error checking path '' @ path_String p @ '': '' @ ferr_text e]\<rparr>)
                   | ((visit, isSymlink, None), s) \<Rightarrow>
                       if \<not> visit then (SkipDir, s)
                       else
                         (let s = s\<lparr>markerChecks := markerChecks s @ [p]\<rparr> in
                          case IsGitRepository fs p of
                            (isRepo, isBare) \<Rightarrow>
                              if isRepo
                              then (SkipDir,
                                    s\<lparr>repositories := repositories s @
                                         [\<lparr>Path = p, Name = filepath_Base p, IsBare = isBare,
                                           IsSymlink = isSymlink, GitStatus_repo = None,
                                           Error_repo = None, HasTimeout = False\<rparr>]\<rparr>)
                              else (Continue, s)))))"

text \<open>
  \<open>filepath.WalkDir\<close>, which does not follow symbolic links. \<open>walkDir\<close> calls the
  function on the node; for a directory it then reads the entries, reports a read
  error to the function in a second call and goes on only if that call returns nil, and
  walks the entries in order. A \<open>SkipDir\<close> from a directory skips it; a \<open>SkipDir\<close>
  from a file ends the walk of the directory it is in.
\<close>

fun walkDir :: "filesys \<Rightarrow> Context \<Rightarrow> path \<Rightarrow> fsnode \<Rightarrow> scanner \<Rightarrow> walkres \<times> scanner"
  and walkEntries ::
    "filesys \<Rightarrow> Context \<Rightarrow> path \<Rightarrow> (string \<times> fsnode) list \<Rightarrow> scanner \<Rightarrow> walkres \<times> scanner"
  where
  "walkDir fs ctx p (File ino) s = walkFunc fs ctx s p (Some (File ino)) None"
| "walkDir fs ctx p (Symlink ino target) s = walkFunc fs ctx s p (Some (Symlink ino target)) None"
| "walkDir fs ctx p (Dir ino rerr entries) s =
     (case walkFunc fs ctx s p (Some (Dir ino rerr entries)) None of
        (Fail e, s1) \<Rightarrow> (Fail e, s1)
      | (SkipDir, s1) \<Rightarrow> (Continue, s1)
      | (Continue, s1) \<Rightarrow>
         (case rerr of
            Some e \<Rightarrow>
              (case walkFunc fs ctx s1 p (Some (Dir ino rerr entries)) (Some e) of
                 (Fail e2, s2) \<Rightarrow> (Fail e2, s2)
               | (SkipDir, s2) \<Rightarrow> (Continue, s2)
               | (Continue, s2) \<Rightarrow> walkEntries fs ctx p entries s2)
          | None \<Rightarrow> walkEntries fs ctx p entries s1))"
| "walkEntries fs ctx p [] s = (Continue, s)"
| "walkEntries fs ctx p ((name, n) # rest) s =
     (case walkDir fs ctx (filepath_Join p name) n s of
        (Fail e, s1) \<Rightarrow> (Fail e, s1)
      | (SkipDir, s1) \<Rightarrow> (Continue, s1)
      | (Continue, s1) \<Rightarrow> walkEntries fs ctx p rest s1)"

definition WalkDir :: "filesys \<Rightarrow> Context \<Rightarrow> path \<Rightarrow> scanner \<Rightarrow> walkres \<times> scanner" where
  "WalkDir fs ctx p s =
     (case (case lstat_node fs p of
              Inl e \<Rightarrow> walkFunc fs ctx s p None (Some e)
            | Inr d \<Rightarrow> walkDir fs ctx p d s) of
        (SkipDir, s') \<Rightarrow> (Continue, s')
      | (r, s') \<Rightarrow> (r, s'))"

text \<open>\<open>buildTree\<close>: the root and one node for each repository found.\<close>

definition buildTree :: "scanner \<Rightarrow> TreeNode" where
  "buildTree s =
     (if length (repositories s) = 0
      then TreeNode (Repository_named (rootPath s) (filepath_Base (rootPath s))) 0 True [] ''.''
      else
        (let root = TreeNode (Repository_named (rootPath s) (filepath_Base (rootPath s)))
                      0 False [] ''.'';
             root = fold (\<lambda>repo root.
                       let relPath = (case filepath_Rel (rootPath s) (Path repo) of
                                        Inl err \<Rightarrow> path_String (Path repo)
                                      | Inr rel \<Rightarrow> rel);
                           node = TreeNode repo 1 False [] relPath
                       in set_Children (Children root @ [node]) root)
                     (repositories s) root
         in SortChildren root))"

text \<open>The result of a scan, without the time it took.\<close>

record ScanResult =
  RootPath :: path
  Repositories :: "Repository list"
  Tree :: TreeNode
  TotalScanned :: int
  TotalRepos :: int
  Errors :: "string list"

definition walkerr_text :: "walkerr \<Rightarrow> string" where
  "walkerr_text e = (case e of CtxErr c \<Rightarrow> ctxerr_text c | FsErr f \<Rightarrow> ferr_text f)"

text \<open>
  \<open>Scan\<close> up to the end of the walk: the absolute root path and the state of the
  scanner, or the fatal error.
\<close>

definition Scan_walk :: "filesys \<Rightarrow> Context \<Rightarrow> path \<Rightarrow> string + path \<times> scanner" where
  "Scan_walk fs ctx RootPath_opt =
     (case os_Stat fs RootPath_opt of
        Inl e \<Rightarrow> Inl (''cannot access root path: scan result validation error: '' @ ferr_text e)
      | Inr info \<Rightarrow>
          if \<not> IsDir info
          then Inl (''root path '' @ path_String RootPath_opt
                    @ '' is not a directory: scan result validation error'')
          else (case filepath_Abs fs RootPath_opt of
                  Inl e \<Rightarrow>
                    Inl (''cannot get absolute path: scan result validation error: '' @ e)
                | Inr absPath \<Rightarrow>
                   (let s = \<lparr>rootPath = absPath, repositories = [], errors = [], visited = {},
                             dirCount = 0, walked = [], markerChecks = []\<rparr>
                    in case WalkDir fs ctx absPath s of
                         (Fail e, s') \<Rightarrow>
                           if e \<noteq> CtxErr Canceled
                           then Inl (''error walking directory tree: '' @ walkerr_text e)
                           else Inr (absPath, s')
                       | (r, s') \<Rightarrow> Inr (absPath, s'))))"

definition Scan :: "filesys \<Rightarrow> Context \<Rightarrow> path \<Rightarrow> string + ScanResult" where
  "Scan fs ctx RootPath_opt =
     (case Scan_walk fs ctx RootPath_opt of
        Inl e \<Rightarrow> Inl e
      | Inr (absPath, s) \<Rightarrow>
          Inr \<lparr>RootPath = absPath, Repositories = repositories s, Tree = buildTree s,
               TotalScanned = dirCount s, TotalRepos = int (length (repositories s)),
               Errors = errors s\<rparr>)"

subsection \<open>Properties of file systems and paths\<close>

text \<open>
  A property of every node of a tree; the names \<open>os.ReadDir\<close> can list (never empty,
  \<open>.\<close> or \<open>..\<close>); the trees whose read errors are all permission errors; and a path
  being strictly beneath another.
\<close>

fun fs_all :: "(fsnode \<Rightarrow> bool) \<Rightarrow> fsnode \<Rightarrow> bool" where
  "fs_all P (File ino) = P (File ino)"
| "fs_all P (Symlink ino target) = P (Symlink ino target)"
| "fs_all P (Dir ino rerr entries) =
     (P (Dir ino rerr entries) \<and> (\<forall>(name, n) \<in> set entries. fs_all P n))"

definition entry_names_ok :: "fsnode \<Rightarrow> bool" where
  "entry_names_ok n =
     (case n of
        Dir ino rerr entries \<Rightarrow> \<forall>(name, c) \<in> set entries. name \<notin> {[], ''.'', ''..''}
      | _ \<Rightarrow> True)"


definition beneath :: "path \<Rightarrow> path \<Rightarrow> bool" where
  "beneath r p = (IsAbs p = IsAbs r \<and> strict_prefix (elems r) (elems p))"

subsection \<open>The invariant of the walk\<close>

text \<open>
  For a walk that starts at the path with components \<open>base\<close>: a path is reached
  properly when it is absolute, lies at or beneath the start, and no directory strictly
  between the start and the path (the start included) has the markers of a repository.
  The invariant of the scanner's state: every repository recorded lies at or beneath the
  start and has the markers; every path walked was reached properly; the marker check
  was made on walked paths only.
\<close>

definition good_path :: "filesys \<Rightarrow> string list \<Rightarrow> path \<Rightarrow> bool" where
  "good_path fs base p =
     (IsAbs p \<and> prefix base (elems p)
      \<and> (\<forall>q. prefix base q \<and> strict_prefix q (elems p)
             \<longrightarrow> \<not> fst (IsGitRepository fs (FsPath True q))))"

definition scan_inv :: "filesys \<Rightarrow> string list \<Rightarrow> scanner \<Rightarrow> bool" where
  "scan_inv fs base s =
     ((\<forall>r \<in> set (repositories s).
         IsAbs (Path r) \<and> prefix base (elems (Path r)) \<and> fst (IsGitRepository fs (Path r)))
      \<and> (\<forall>p \<in> set (walked s). good_path fs base p)
      \<and> set (markerChecks s) \<subseteq> set (walked s))"

subsection \<open>Example file systems\<close>

text \<open>
  \<open>/home/proj\<close> with a repository \<open>app\<close> that holds a nested repository \<open>vendor/lib\<close>,
  a bare repository \<open>deep/mirror.git\<close>, and a dangling link.
\<close>

definition example_tree :: fsnode where
  "example_tree =
     Dir 1 None
       [(''home'', Dir 2 None
          [(''proj'', Dir 3 None
             [(''app'', Dir 4 None
                [(''.git'', Dir 5 None []),
                 (''vendor'', Dir 6 None
                    [(''lib'', Dir 7 None [(''.git'', Dir 8 None [])])])]),
              (''dangling'', Symlink 9 [''nowhere'']),
              (''deep'', Dir 10 None
                 [(''mirror.git'', Dir 11 None
                     [(''HEAD'', File 12), (''objects'', Dir 13 None []),
                      (''refs'', Dir 14 None [])])]),
              (''notes.txt'', File 15)])])]"

definition example_fs :: filesys where
  "example_fs = \<lparr>fs_root = example_tree, fs_cwd = Some [''home''], stat_t = True\<rparr>"


definition never_done :: Context where
  "never_done = \<lparr>done_after = None, ctx_cause = Canceled\<rparr>"

text \<open>The state in which the scan of \<open>/home/proj\<close> ends in the example file system.\<close>

definition example_state :: scanner where
  "example_state =
     \<lparr>rootPath = FsPath True [''home'', ''proj''],
      repositories =
        [\<lparr>Path = FsPath True [''home'', ''proj'', ''app''], Name = ''app'', IsBare = False,
          IsSymlink = False, GitStatus_repo = None, Error_repo = None, HasTimeout = False\<rparr>,
         \<lparr>Path = FsPath True [''home'', ''proj'', ''deep'', ''mirror.git''],
          Name = ''mirror.git'', IsBare = True, IsSymlink = False, GitStatus_repo = None,
          Error_repo = None, HasTimeout = False\<rparr>],
      errors = [], visited = {11, 10, 4, 3}, dirCount = 4,
      walked =
        [FsPath True [''home'', ''proj''],
         FsPath True [''home'', ''proj'', ''app''],
         FsPath True [''home'', ''proj'', ''dangling''],
         FsPath True [''home'', ''proj'', ''deep''],
         FsPath True [''home'', ''proj'', ''deep'', ''mirror.git''],
         FsPath True [''home'', ''proj'', ''notes.txt'']],
      markerChecks =
        [FsPath True [''home'', ''proj''],
         FsPath True [''home'', ''proj'', ''app''],
         FsPath True [''home'', ''proj'', ''deep''],
         FsPath True [''home'', ''proj'', ''deep'', ''mirror.git'']]\<rparr>"

text \<open>The result of that scan.\<close>

definition example_result :: ScanResult where
  "example_result =
     \<lparr>RootPath = FsPath True [''home'', ''proj''], Repositories = repositories example_state,
      Tree = buildTree example_state, TotalScanned = dirCount example_state,
      TotalRepos = int (length (repositories example_state)), Errors = errors example_state\<rparr>"

section \<open>Concurrent extraction (ExtractBatch)\<close>

text \<open>
  \<open>ExtractBatch\<close> starts one goroutine for each path of the map \<open>repos\<close>, a goroutine
  that closes the channel \<open>results\<close> once all of them are done, and collects the
  results itself. Its runs are the sequences of steps of a transition system, one step
  for each communication of a goroutine. The context is never done here, so the two
  branches on \<open>ctx.Done()\<close> are never taken.

  A worker goroutine is at one of four places: waiting for the semaphore; running (it
  holds a slot of the semaphore and is inside \<open>Extract\<close>); sent (its result is in the
  channel, the slot is still held); finished (the deferred release and \<open>wg.Done()\<close>
  have run). The state holds the place of the worker of each path, the contents of the
  channel \<open>results\<close>, whether it is closed, the map \<open>statuses\<close> collected so far, and
  whether \<open>ExtractBatch\<close> has returned it.
\<close>

datatype place = Waiting | Running | Sent | Finished

record batch =
  place_of :: "path \<Rightarrow> place"
  results :: "(path \<times> GitStatus) list"
  results_closed :: bool
  statuses :: "path \<Rightarrow> GitStatus option"
  returned :: bool

text \<open>
  The start, for the set \<open>P\<close> of the paths of \<open>repos\<close>: with no path \<open>ExtractBatch\<close>
  returns the empty map at once; otherwise every worker is waiting.
\<close>

definition batch_init :: "path set \<Rightarrow> batch" where
  "batch_init P =
     \<lparr>place_of = (\<lambda>p. Waiting), results = [], results_closed = False,
      statuses = (\<lambda>p. None), returned = (P = {})\<rparr>"

text \<open>The workers that hold a slot of the semaphore.\<close>

definition holders :: "path set \<Rightarrow> batch \<Rightarrow> path set" where
  "holders P s = {p \<in> P. place_of s p = Running \<or> place_of s p = Sent}"

text \<open>
  The steps, for the capacity \<open>C\<close> of the semaphore (\<open>opts.MaxConcurrency\<close>), the paths
  \<open>P\<close>, whose number is the capacity of the channel \<open>results\<close>, and the status \<open>ext p\<close>
  that \<open>Extract\<close> returns for the path \<open>p\<close>, which is never nil.
  \<^item> \<open>acquire\<close>: the send \<open>semaphore <- struct{}{}\<close> goes through when the semaphore holds
    fewer than \<open>C\<close> slots. With \<open>C = 0\<close> the channel is unbuffered and the send needs a
    receiver that is ready; the only receive is the deferred release of a worker that
    has acquired, so there is none.
  \<^item> \<open>send\<close>: \<open>Extract\<close> has returned and the result goes into the channel, which has room.
  \<^item> \<open>release\<close>: the deferred \<open><-semaphore\<close> and \<open>wg.Done()\<close>.
  \<^item> \<open>close\<close>: \<open>wg.Wait()\<close> returns when every worker is finished, and the channel is closed.
  \<^item> \<open>collect\<close>: the loop \<open>for r := range results\<close> takes a result and stores it.
  \<^item> \<open>return\<close>: the loop ends when the channel is closed and empty.
\<close>

inductive step :: "int \<Rightarrow> path set \<Rightarrow> (path \<Rightarrow> GitStatus) \<Rightarrow> batch \<Rightarrow> batch \<Rightarrow> bool"
  for C :: int and P :: "path set" and ext :: "path \<Rightarrow> GitStatus" where
  acquire:
    "p \<in> P \<Longrightarrow> place_of s p = Waiting \<Longrightarrow> int (card (holders P s)) < C \<Longrightarrow>
       step C P ext s (s\<lparr>place_of := (place_of s)(p := Running)\<rparr>)"
| send:
    "p \<in> P \<Longrightarrow> place_of s p = Running \<Longrightarrow> length (results s) < card P \<Longrightarrow>
       step C P ext s
         (s\<lparr>place_of := (place_of s)(p := Sent), results := results s @ [(p, ext p)]\<rparr>)"
| release:
    "p \<in> P \<Longrightarrow> place_of s p = Sent \<Longrightarrow>
       step C P ext s (s\<lparr>place_of := (place_of s)(p := Finished)\<rparr>)"
| close:
    "place_of s ` P \<subseteq> {Finished} \<Longrightarrow> \<not> results_closed s \<Longrightarrow> \<not> returned s \<Longrightarrow>
       step C P ext s (s\<lparr>results_closed := True\<rparr>)"
| collect:
    "results s = (p, st) # rest \<Longrightarrow> \<not> returned s \<Longrightarrow>
       step C P ext s (s\<lparr>results := rest, statuses := (statuses s)(p \<mapsto> st)\<rparr>)"
| return:
    "results s = [] \<Longrightarrow> results_closed s \<Longrightarrow> \<not> returned s \<Longrightarrow>
       step C P ext s (s\<lparr>returned := True\<rparr>)"

text \<open>The states a run of \<open>ExtractBatch\<close> on the paths \<open>P\<close> can be in.\<close>

definition batch_reachable :: "int \<Rightarrow> path set \<Rightarrow> (path \<Rightarrow> GitStatus) \<Rightarrow> batch \<Rightarrow> bool" where
  "batch_reachable C P ext s = (step C P ext)\<^sup>*\<^sup>* (batch_init P) s"

text \<open>
  The invariant of the runs: every result in the channel or in the map is the status of
  its path; the paths with a result, in the channel or in the map and never in both,
  are those whose worker has sent; the channel is closed, and the map returned, only
  when all workers have finished.
\<close>

definition batch_inv :: "path set \<Rightarrow> (path \<Rightarrow> GitStatus) \<Rightarrow> batch \<Rightarrow> bool" where
  "batch_inv P ext s =
     (distinct (map fst (results s))
      \<and> set (map fst (results s)) \<inter> dom (statuses s) = {}
      \<and> set (map fst (results s)) \<union> dom (statuses s)
          = {p \<in> P. place_of s p = Sent \<or> place_of s p = Finished}
      \<and> (\<forall>p st. (p, st) \<in> set (results s) \<longrightarrow> st = ext p)
      \<and> (\<forall>p st. statuses s p = Some st \<longrightarrow> st = ext p)
      \<and> (results_closed s \<longrightarrow> (\<forall>p \<in> P. place_of s p = Finished))
      \<and> (returned s \<longrightarrow> (\<forall>p \<in> P. place_of s p = Finished) \<and> results s = []))"

text \<open>The measure that every step decreases.\<close>

definition place_weight :: "place \<Rightarrow> nat" where
  "place_weight w = (case w of Waiting \<Rightarrow> 4 | Running \<Rightarrow> 3 | Sent \<Rightarrow> 1 | Finished \<Rightarrow> 0)"

definition batch_measure :: "path set \<Rightarrow> batch \<Rightarrow> nat" where
  "batch_measure P s =
     (\<Sum>p \<in> P. place_weight (place_of s p)) + length (results s)
     + (if results_closed s then 0 else 1) + (if returned s then 0 else 1)"

text \<open>A batch of one repository.\<close>

definition example_path :: path where
  "example_path = FsPath True [''srv'', ''repo'']"

section \<open>Properties of the status extraction\<close>









lemma extractBranch_fields:
  "Ahead (snd (extractBranch repo s)) = Ahead s \<and> Behind (snd (extractBranch repo s)) = Behind s
   \<and> HasRemote (snd (extractBranch repo s)) = HasRemote s
   \<and> HasChanges (snd (extractBranch repo s)) = HasChanges s"
  by (simp add: extractBranch_def split: sum.splits prod.splits)

lemma extractRemote_fields:
  "Ahead (snd (extractRemote repo s)) = Ahead s \<and> Behind (snd (extractRemote repo s)) = Behind s
   \<and> HasChanges (snd (extractRemote repo s)) = HasChanges s
   \<and> Error (snd (extractRemote repo s)) = Error s"
  by (simp add: extractRemote_def split: sum.splits prod.splits)

lemma extractRemote_result:
  "(fst (extractRemote repo s) = None \<longrightarrow> HasRemote (snd (extractRemote repo s)))
   \<and> (fst (extractRemote repo s) = None \<longleftrightarrow> (\<exists>rs. Remotes repo = Inr rs \<and> rs \<noteq> []))"
  by (simp add: extractRemote_def split: sum.splits prod.splits)

lemma extractAheadBehind_fields:
  "HasRemote (snd (extractAheadBehind repo s)) = HasRemote s
   \<and> Error (snd (extractAheadBehind repo s)) = Error s
   \<and> HasChanges (snd (extractAheadBehind repo s)) = HasChanges s"
  by (simp add: extractAheadBehind_def split: sum.splits prod.splits)

lemma extractUncommittedChanges_fields:
  "Ahead (snd (extractUncommittedChanges repo s opts pats)) = Ahead s
   \<and> Behind (snd (extractUncommittedChanges repo s opts pats)) = Behind s
   \<and> HasRemote (snd (extractUncommittedChanges repo s opts pats)) = HasRemote s
   \<and> Error (snd (extractUncommittedChanges repo s opts pats)) = Error s"
  by (simp add: extractUncommittedChanges_def Let_def split: worktree.splits sum.splits)

lemma extractUncommittedChanges_bare:
  "Worktree_of repo = IsBareRepository \<Longrightarrow>
     \<not> HasChanges (snd (extractUncommittedChanges repo s opts pats))"
  by (simp add: extractUncommittedChanges_def)

text \<open>The five steps of \<open>extractGitStatus\<close> on an opened repository, one after the other.\<close>

lemma extractGitStatus_steps:
  obtains s1 s2 s3 s4 s5 where
    "extractGitStatus (Inr repo) opts pats = Inr s5"
    "s1 = (case extractBranch repo GitStatus_zero of
             (Some e, s) \<Rightarrow> s\<lparr>Branch := ''N/A'', Error := e\<rparr> | (None, s) \<Rightarrow> s)"
    "s2 = (case extractRemote repo s1 of
             (Some e, s) \<Rightarrow> s\<lparr>HasRemote := False\<rparr> | (None, s) \<Rightarrow> s)"
    "s3 = (if HasRemote s2
           then (case extractAheadBehind repo s2 of
                   (Some e, s) \<Rightarrow> if Error s = [] then s\<lparr>Error := e\<rparr> else s
                 | (None, s) \<Rightarrow> s)
           else s2)"
    "s4 = s3\<lparr>HasStashes := extractStashes repo\<rparr>"
    "s5 = (case extractUncommittedChanges repo s4 opts pats of
             (Some e, s) \<Rightarrow>
               if Worktree_of repo \<noteq> IsBareRepository
               then (if Error s = [] then s\<lparr>Error := e\<rparr> else s)
               else s
           | (None, s) \<Rightarrow> s)"
proof -
  have "extractGitStatus (Inr repo) opts pats =
     Inr (case extractUncommittedChanges repo
            ((if HasRemote (case extractRemote repo (case extractBranch repo GitStatus_zero of
                 (Some e, s) \<Rightarrow> s\<lparr>Branch := ''N/A'', Error := e\<rparr> | (None, s) \<Rightarrow> s) of
                 (Some e, s) \<Rightarrow> s\<lparr>HasRemote := False\<rparr> | (None, s) \<Rightarrow> s)
              then (case extractAheadBehind repo (case extractRemote repo (case extractBranch repo GitStatus_zero of
                 (Some e, s) \<Rightarrow> s\<lparr>Branch := ''N/A'', Error := e\<rparr> | (None, s) \<Rightarrow> s) of
                 (Some e, s) \<Rightarrow> s\<lparr>HasRemote := False\<rparr> | (None, s) \<Rightarrow> s) of
                   (Some e, s) \<Rightarrow> if Error s = [] then s\<lparr>Error := e\<rparr> else s
                 | (None, s) \<Rightarrow> s)
              else (case extractRemote repo (case extractBranch repo GitStatus_zero of
                 (Some e, s) \<Rightarrow> s\<lparr>Branch := ''N/A'', Error := e\<rparr> | (None, s) \<Rightarrow> s) of
                 (Some e, s) \<Rightarrow> s\<lparr>HasRemote := False\<rparr> | (None, s) \<Rightarrow> s))
             \<lparr>HasStashes := extractStashes repo\<rparr>) opts pats of
             (Some e, s) \<Rightarrow>
               if Worktree_of repo \<noteq> IsBareRepository
               then (if Error s = [] then s\<lparr>Error := e\<rparr> else s)
               else s
           | (None, s) \<Rightarrow> s)"
    unfolding extractGitStatus_def Let_def sum.case by (rule refl)
  then show ?thesis by (rule that) (rule refl)+
qed


lemma extractAheadBehind_counts:
  assumes "Ahead st = 0" and "Behind st = 0"
  shows "Ahead (snd (extractAheadBehind repo st)) = Ahead (snd (extractAheadBehind repo GitStatus_zero))
       \<and> Behind (snd (extractAheadBehind repo st)) = Behind (snd (extractAheadBehind repo GitStatus_zero))"
  using assms
  by (simp add: extractAheadBehind_def GitStatus_zero_def split: sum.splits prod.splits)

lemma extractAheadBehind_error:
  assumes "Head repo = Inr x"
  shows "fst (extractAheadBehind repo st) \<noteq> Some errNoRemotes"
  using assms
  by (simp add: extractAheadBehind_def Reference_def CommitObject_def countCommitsBetween_def
      Log_def ForEach_def errNoRemotes_def Let_def
      split: sum.splits prod.splits option.splits del: log_iter.simps)

lemma extractUncommittedChanges_error:
  "Worktree_of repo \<noteq> IsBareRepository \<Longrightarrow>
     fst (extractUncommittedChanges repo st opts pats) \<noteq> Some errNoRemotes"
  by (simp add: extractUncommittedChanges_def errNoRemotes_def Let_def
      split: worktree.splits sum.splits)

lemma extractGitStatus_facts:
  assumes "extractGitStatus (Inr repo) opts pats = Inr s"
  shows "HasRemote s \<longleftrightarrow> (\<exists>rs. Remotes repo = Inr rs \<and> rs \<noteq> [])"
    and "Ahead s = (if HasRemote s then Ahead (snd (extractAheadBehind repo GitStatus_zero)) else 0)"
    and "Behind s = (if HasRemote s then Behind (snd (extractAheadBehind repo GitStatus_zero)) else 0)"
    and "Worktree_of repo = IsBareRepository \<Longrightarrow> \<not> HasChanges s"
    and "Error s \<noteq> errNoRemotes"
proof -
  obtain s1 s2 s3 s4 s5 where r: "extractGitStatus (Inr repo) opts pats = Inr s5"
    and s1: "s1 = (case extractBranch repo GitStatus_zero of
             (Some e, s) \<Rightarrow> s\<lparr>Branch := ''N/A'', Error := e\<rparr> | (None, s) \<Rightarrow> s)"
    and s2: "s2 = (case extractRemote repo s1 of
             (Some e, s) \<Rightarrow> s\<lparr>HasRemote := False\<rparr> | (None, s) \<Rightarrow> s)"
    and s3: "s3 = (if HasRemote s2
           then (case extractAheadBehind repo s2 of
                   (Some e, s) \<Rightarrow> if Error s = [] then s\<lparr>Error := e\<rparr> else s
                 | (None, s) \<Rightarrow> s)
           else s2)"
    and s4: "s4 = s3\<lparr>HasStashes := extractStashes repo\<rparr>"
    and s5: "s5 = (case extractUncommittedChanges repo s4 opts pats of
             (Some e, s) \<Rightarrow>
               if Worktree_of repo \<noteq> IsBareRepository
               then (if Error s = [] then s\<lparr>Error := e\<rparr> else s)
               else s
           | (None, s) \<Rightarrow> s)"
    by (rule extractGitStatus_steps)
  from r assms have s: "s = s5" by simp
  obtain e1 t1 where b1: "extractBranch repo GitStatus_zero = (e1, t1)"
    by (cases "extractBranch repo GitStatus_zero") auto
  obtain e2 t2 where b2: "extractRemote repo s1 = (e2, t2)"
    by (cases "extractRemote repo s1") auto
  obtain e3 t3 where b3: "extractAheadBehind repo s2 = (e3, t3)"
    by (cases "extractAheadBehind repo s2") auto
  obtain e5 t5 where b5: "extractUncommittedChanges repo s4 opts pats = (e5, t5)"
    by (cases "extractUncommittedChanges repo s4 opts pats") auto
  have z1: "Ahead s1 = 0 \<and> Behind s1 = 0"
    using extractBranch_fields [of repo GitStatus_zero] b1
    by (simp add: s1 GitStatus_zero_def split: option.splits)
  have z2: "Ahead s2 = 0 \<and> Behind s2 = 0"
    using extractRemote_fields [of repo s1] b2 z1 by (simp add: s2 split: option.splits)
  have k2: "HasRemote s2 \<longleftrightarrow> (\<exists>rs. Remotes repo = Inr rs \<and> rs \<noteq> [])"
    using extractRemote_result [of repo s1] b2 by (auto simp add: s2 split: option.splits)
  have k3: "HasRemote s3 = HasRemote s2"
    using extractAheadBehind_fields [of repo s2] b3 by (simp add: s3 split: option.splits)
  have k5: "HasRemote s5 = HasRemote s4 \<and> Ahead s5 = Ahead s4 \<and> Behind s5 = Behind s4"
    using extractUncommittedChanges_fields [of repo s4 opts pats] b5
    by (simp add: s5 split: option.splits)
  have k4: "HasRemote s4 = HasRemote s3 \<and> Ahead s4 = Ahead s3 \<and> Behind s4 = Behind s3"
    by (simp add: s4)
  show hr: "HasRemote s \<longleftrightarrow> (\<exists>rs. Remotes repo = Inr rs \<and> rs \<noteq> [])"
    using k2 k3 k4 k5 s by simp
  have c3: "Ahead s3 = (if HasRemote s2 then Ahead (snd (extractAheadBehind repo GitStatus_zero)) else 0)
      \<and> Behind s3 = (if HasRemote s2 then Behind (snd (extractAheadBehind repo GitStatus_zero)) else 0)"
    using extractAheadBehind_counts [of s2 repo] z2 b3 by (simp add: s3 split: option.splits)
  show "Ahead s = (if HasRemote s then Ahead (snd (extractAheadBehind repo GitStatus_zero)) else 0)"
    using c3 k3 k4 k5 s by simp
  show "Behind s = (if HasRemote s then Behind (snd (extractAheadBehind repo GitStatus_zero)) else 0)"
    using c3 k3 k4 k5 s by simp
  show "\<not> HasChanges s" if "Worktree_of repo = IsBareRepository"
    using extractUncommittedChanges_bare [OF that, of s4 opts pats] b5 s
    by (simp add: s5 split: option.splits)
  have h1: "Error s1 \<noteq> errNoRemotes \<and> (Error s1 = [] \<longrightarrow> (\<exists>x. Head repo = Inr x))"
    using b1 by (auto simp add: s1 extractBranch_def GitStatus_zero_def errNoRemotes_def
        split: sum.splits prod.splits if_splits)
  have h2: "Error s2 = Error s1"
    using extractRemote_fields [of repo s1] b2 by (simp add: s2 split: option.splits)
  have h3: "Error s3 \<noteq> errNoRemotes"
  proof (cases "HasRemote s2 \<and> Error s2 = []")
    case True
    with h1 h2 obtain x where "Head repo = Inr x" by auto
    from extractAheadBehind_error [OF this, of s2] b3 have "e3 \<noteq> Some errNoRemotes" by simp
    with True b3 h1 h2 extractAheadBehind_fields [of repo s2] show ?thesis
      by (auto simp add: s3 errNoRemotes_def split: option.splits)
  next
    case False
    with b3 h1 h2 extractAheadBehind_fields [of repo s2] show ?thesis
      by (auto simp add: s3 split: option.splits)
  qed
  have h5: "Error s5 \<noteq> errNoRemotes"
    using extractUncommittedChanges_fields [of repo s4 opts pats] b5 h3
      extractUncommittedChanges_error [of repo s4 opts pats]
    by (auto simp add: s5 s4 split: option.splits)
  then show "Error s \<noteq> errNoRemotes" using s by simp
qed

lemma extractGitStatus_opened:
  "\<exists>s. extractGitStatus (Inr repo) opts pats = Inr s"
  by (simp add: extractGitStatus_def Let_def)

section \<open>The claims about status extraction\<close>

lemma Extract_cases:
  "(\<exists>e. Extract ctxDone opened opts pats = (GitStatus_zero\<lparr>Branch := ''N/A'', Error := e\<rparr>, Some e)
        \<and> (ctxDone \<noteq> None \<or> (\<exists>x. opened = Inl x)))
   \<or> (\<exists>reason. ctxDone = Some reason \<and> Extract ctxDone opened opts pats =
         (GitStatus_zero\<lparr>Branch := ''N/A'', Error := ''timeout''\<rparr>, Some (ctxerr_text reason)))
   \<or> (\<exists>repo s. ctxDone = None \<and> opened = Inr repo
         \<and> extractGitStatus (Inr repo) (case opts of None \<Rightarrow> DefaultOptions | Some p \<Rightarrow> p) pats = Inr s
         \<and> Extract ctxDone opened opts pats = (s, None))"
proof (cases ctxDone)
  case (Some reason)
  then show ?thesis by (simp add: Extract_def)
next
  case None
  show ?thesis
  proof (cases opened)
    case (Inl x)
    with None show ?thesis by (simp add: Extract_def extractGitStatus_def)
  next
    case (Inr repo)
    obtain s where "extractGitStatus (Inr repo) (case opts of None \<Rightarrow> DefaultOptions | Some p \<Rightarrow> p) pats = Inr s"
      using extractGitStatus_opened by blast
    with None Inr show ?thesis by (simp add: Extract_def)
  qed
qed



text \<open>
  Claim C5, as amended. When the context is done before the extraction delivers,
  \<open>Extract\<close> returns a status whose branch is the placeholder \<open>N/A\<close> and whose error
  annotation is \<open>timeout\<close>, together with the context's error; when opening the
  repository fails it returns a status with the same placeholder branch and the
  message of the failure as annotation. In both cases every other field is zero.
\<close>

theorem C5_timeout_partial_status:
  "Extract (Some reason) opened opts pats =
     (GitStatus_zero\<lparr>Branch := ''N/A'', Error := ''timeout''\<rparr>, Some (ctxerr_text reason))
   \<and> Extract None (Inl e) opts pats =
     (GitStatus_zero\<lparr>Branch := ''N/A'', Error := ''failed to open repository: '' @ e\<rparr>,
      Some (''failed to open repository: '' @ e))"
  by (simp add: Extract_def extractGitStatus_def)

text \<open>
  Claim C5 as stated fails: on a timeout the branch is neither \<open>DETACHED\<close> nor
  \<open>unknown\<close>.
\<close>

theorem C5_sentinel_counterexample:
  "Branch (fst (Extract (Some DeadlineExceeded) (Inr example_repo) None []))
     \<notin> {''DETACHED'', ''unknown''}"
  by (simp add: Extract_def)

text \<open>
  Claim C7. Whatever \<open>Extract\<close> returns, a status without the remote flag has ahead
  and behind counts of zero. A repository with no remote configured is extracted
  without an error: \<open>Extract\<close> returns no error, the remote flag is off, and the
  status does not carry the \<open>no remotes configured\<close> error as its annotation. The
  validation of a status rejects one that has no remote and a non-zero count.
\<close>

theorem C7_no_remote_zero_counts:
  "(\<not> HasRemote (fst (Extract ctxDone opened opts pats)) \<longrightarrow>
       Ahead (fst (Extract ctxDone opened opts pats)) = 0
     \<and> Behind (fst (Extract ctxDone opened opts pats)) = 0)
   \<and> (Remotes repo = Inr [] \<longrightarrow>
       snd (Extract None (Inr repo) opts pats) = None
     \<and> \<not> HasRemote (fst (Extract None (Inr repo) opts pats))
     \<and> Error (fst (Extract None (Inr repo) opts pats)) \<noteq> errNoRemotes)
   \<and> (\<not> HasRemote g \<and> (Ahead g \<noteq> 0 \<or> Behind g \<noteq> 0) \<longrightarrow> GitStatus_Validate g \<noteq> None)"
proof (intro conjI impI)
  assume nr: "\<not> HasRemote (fst (Extract ctxDone opened opts pats))"
  from Extract_cases [of ctxDone opened opts pats]
  show "Ahead (fst (Extract ctxDone opened opts pats)) = 0"
    and "Behind (fst (Extract ctxDone opened opts pats)) = 0"
    using nr extractGitStatus_facts(2,3)
    by (auto simp: GitStatus_zero_def)
next
  assume rem: "Remotes repo = Inr []"
  obtain s where s: "extractGitStatus (Inr repo) (case opts of None \<Rightarrow> DefaultOptions | Some p \<Rightarrow> p) pats = Inr s"
    using extractGitStatus_opened by blast
  then have e: "Extract None (Inr repo) opts pats = (s, None)" by (simp add: Extract_def)
  note f = extractGitStatus_facts [OF s]
  show "snd (Extract None (Inr repo) opts pats) = None" using e by simp
  show "\<not> HasRemote (fst (Extract None (Inr repo) opts pats))" using e f(1) rem by simp
  show "Error (fst (Extract None (Inr repo) opts pats)) \<noteq> errNoRemotes" using e f(5) by simp
next
  assume "\<not> HasRemote g \<and> (Ahead g \<noteq> 0 \<or> Behind g \<noteq> 0)"
  then show "GitStatus_Validate g \<noteq> None" by (simp add: GitStatus_Validate_def)
qed

text \<open>
  The three parts at concrete inputs: the example repository without a remote, and a
  status on \<open>main\<close> with no remote and an ahead count of one.
\<close>

theorem C7_no_remote_zero_counts_witness:
  "\<not> HasRemote (fst (Extract None (Inr example_repo_no_remote) None []))
   \<and> Ahead (fst (Extract None (Inr example_repo_no_remote) None [])) = 0
   \<and> Behind (fst (Extract None (Inr example_repo_no_remote) None [])) = 0
   \<and> Remotes example_repo_no_remote = Inr []
   \<and> snd (Extract None (Inr example_repo_no_remote) None []) = None
   \<and> Error (fst (Extract None (Inr example_repo_no_remote) None [])) \<noteq> errNoRemotes
   \<and> \<not> HasRemote (GitStatus_zero\<lparr>Branch := ''main'', Ahead := 1\<rparr>)
   \<and> Ahead (GitStatus_zero\<lparr>Branch := ''main'', Ahead := 1\<rparr>) \<noteq> 0
   \<and> GitStatus_Validate (GitStatus_zero\<lparr>Branch := ''main'', Ahead := 1\<rparr>) \<noteq> None"
proof -
  have r: "Remotes example_repo_no_remote = Inr []" by (simp add: example_repo_no_remote_def)
  have g: "\<not> HasRemote (GitStatus_zero\<lparr>Branch := ''main'', Ahead := 1\<rparr>)
     \<and> (Ahead (GitStatus_zero\<lparr>Branch := ''main'', Ahead := 1\<rparr>) \<noteq> 0
        \<or> Behind (GitStatus_zero\<lparr>Branch := ''main'', Ahead := 1\<rparr>) \<noteq> 0)"
    by (simp add: GitStatus_zero_def)
  note t = C7_no_remote_zero_counts [of None "Inr example_repo_no_remote" None "[]"
      example_repo_no_remote "GitStatus_zero\<lparr>Branch := ''main'', Ahead := 1\<rparr>"]
  from t r have p2: "snd (Extract None (Inr example_repo_no_remote) None []) = None"
    and p3: "\<not> HasRemote (fst (Extract None (Inr example_repo_no_remote) None []))"
    and p4: "Error (fst (Extract None (Inr example_repo_no_remote) None [])) \<noteq> errNoRemotes"
    by blast+
  from t p3 have p1: "Ahead (fst (Extract None (Inr example_repo_no_remote) None [])) = 0
     \<and> Behind (fst (Extract None (Inr example_repo_no_remote) None [])) = 0"
    by blast
  from t g have p5: "GitStatus_Validate (GitStatus_zero\<lparr>Branch := ''main'', Ahead := 1\<rparr>) \<noteq> None"
    by blast
  from g have "Ahead (GitStatus_zero\<lparr>Branch := ''main'', Ahead := 1\<rparr>) \<noteq> 0"
    by (simp add: GitStatus_zero_def)
  with r g p1 p2 p3 p4 p5 show ?thesis by blast
qed

text \<open>
  Claim C9. For a bare repository (one whose \<open>Worktree()\<close> fails with
  \<open>ErrIsBareRepository\<close>) the extracted status never reports working-tree changes,
  and the validation of a repository record rejects a record marked bare whose attached
  status claims changes.
\<close>

theorem C9_bare_no_changes:
  "(Worktree_of repo = IsBareRepository \<longrightarrow>
       \<not> HasChanges (fst (Extract ctxDone (Inr repo) opts pats)))
   \<and> (IsBare r \<and> GitStatus_repo r = Some g \<and> HasChanges g \<longrightarrow> Repository_Validate r \<noteq> None)"
proof (intro conjI impI)
  assume b: "Worktree_of repo = IsBareRepository"
  from Extract_cases [of ctxDone "Inr repo" opts pats]
  show "\<not> HasChanges (fst (Extract ctxDone (Inr repo) opts pats))"
    using extractGitStatus_facts(4) [OF _ b]
    by (auto simp: GitStatus_zero_def)
next
  assume "IsBare r \<and> GitStatus_repo r = Some g \<and> HasChanges g"
  then show "Repository_Validate r \<noteq> None" by (simp add: Repository_Validate_def)
qed

text \<open>
  Both parts at concrete inputs: the bare example repository, and a bare record whose
  status claims changes.
\<close>

theorem C9_bare_no_changes_witness:
  "Worktree_of example_repo_bare = IsBareRepository
   \<and> \<not> HasChanges (fst (Extract None (Inr example_repo_bare) None []))
   \<and> IsBare example_bare_record \<and> GitStatus_repo example_bare_record = Some example_dirty_status
   \<and> HasChanges example_dirty_status
   \<and> Repository_Validate example_bare_record \<noteq> None"
proof -
  have b: "Worktree_of example_repo_bare = IsBareRepository"
    by (simp add: example_repo_bare_def)
  have v: "IsBare example_bare_record \<and> GitStatus_repo example_bare_record = Some example_dirty_status
     \<and> HasChanges example_dirty_status"
    by (simp add: example_bare_record_def example_dirty_status_def GitStatus_zero_def)
  note t = C9_bare_no_changes [of example_repo_bare None None "[]" example_bare_record
      example_dirty_status]
  from t b have "\<not> HasChanges (fst (Extract None (Inr example_repo_bare) None []))" by blast
  moreover from t v have "Repository_Validate example_bare_record \<noteq> None" by blast
  ultimately show ?thesis using b v by blast
qed

section \<open>Properties of the tree\<close>

lemma set_fields [simp]:
  "Repository_of (set_Depth d n) = Repository_of n" "Depth (set_Depth d n) = d"
  "IsLast (set_Depth d n) = IsLast n" "Children (set_Depth d n) = Children n"
  "RelativePath (set_Depth d n) = RelativePath n"
  "Repository_of (set_IsLast b n) = Repository_of n" "Depth (set_IsLast b n) = Depth n"
  "IsLast (set_IsLast b n) = b" "Children (set_IsLast b n) = Children n"
  "RelativePath (set_IsLast b n) = RelativePath n"
  "Repository_of (set_Children cs n) = Repository_of n" "Depth (set_Children cs n) = Depth n"
  "IsLast (set_Children cs n) = IsLast n" "Children (set_Children cs n) = cs"
  "RelativePath (set_Children cs n) = RelativePath n"
  by (simp_all add: set_Depth_def set_IsLast_def set_Children_def)

lemma Name_of_set [simp]:
  "Name_of (set_Depth d n) = Name_of n" "Name_of (set_IsLast b n) = Name_of n"
  "Name_of (set_Children cs n) = Name_of n"
  by (simp_all add: Name_of_def)

lemma length_mark_last [simp]: "length (mark_last i n xs) = length xs"
  by (induction xs arbitrary: i) auto

lemma map_Name_of_mark_last [simp]: "map Name_of (mark_last i n xs) = map Name_of xs"
  by (induction xs arbitrary: i) auto


lemma SortChildren_fields [simp]:
  "Repository_of (SortChildren t) = Repository_of t" "Depth (SortChildren t) = Depth t"
  "IsLast (SortChildren t) = IsLast t"
  by (simp_all add: SortChildren_def Let_def)

lemma Children_SortChildren:
  "Children (SortChildren t) =
     mark_last 0 (length (Children t)) (sort_key Name_of (Children t))"
  by (simp add: SortChildren_def Let_def)

lemma sortTree_fields [simp]:
  "Repository_of (sortTree n) = Repository_of n" "Depth (sortTree n) = Depth n"
  "IsLast (sortTree n) = IsLast n" "Name_of (sortTree n) = Name_of n"
  by (simp_all add: sortTree.simps [of n] Let_def Name_of_def)

lemma Children_sortTree:
  "Children (sortTree n) =
     map (\<lambda>child. sortTree (set_Depth (Depth n + 1) child)) (Children (SortChildren n))"
  by (simp add: sortTree.simps [of n] Let_def)



lemma Depth_insert_parts [simp]:
  "Depth (insert_parts seen cur parts repo relPath node) = Depth node"
  by (induction seen cur parts repo relPath node rule: insert_parts.induct)
    (simp_all add: Let_def split: option.splits)






text \<open>
  Claim C4, as amended. For a tree whose root has no children, \<open>Format\<close> returns the
  root label followed by a line break when the root is shown, and the empty text
  otherwise. The notice that no repository was found is printed by the command itself,
  when the scan returns an empty repository list, without calling \<open>Format\<close>.
\<close>

theorem C4_format_empty_tree:
  "(Children tree = [] \<longrightarrow>
      Format col (Some tree) opts =
        (if ShowRoot (case opts of None \<Rightarrow> DefaultFormatOptions | Some p \<Rightarrow> p)
         then RootLabel (case opts of None \<Rightarrow> DefaultFormatOptions | Some p \<Rightarrow> p) @ newline
         else []))
   \<and> main_stdout col dir [] found = ''No Git repositories found in this directory.'' @ newline"
  by (simp add: Format_def Let_def main_stdout_def)

text \<open>
  The tree built from an empty repository list has a root without children, and is
  rendered with the default options as the line \<open>.\<close>
\<close>

theorem C4_format_empty_tree_witness:
  "Children (Build (FsPath True [''root'']) (Some []) None) = []
   \<and> Format no_color (Some (Build (FsPath True [''root'']) (Some []) None)) None = ''.'' @ newline"
proof -
  have c: "Children (Build (FsPath True [''root'']) (Some []) None) = []"
    by (simp add: Build_def Let_def Children_sortTree Children_SortChildren)
  from C4_format_empty_tree [of "Build (FsPath True [''root'']) (Some []) None" no_color None]
    c show ?thesis by (simp add: DefaultFormatOptions_def)
qed

text \<open>
  Claim C4 as stated fails: for the tree built from an empty repository list the output
  of \<open>Format\<close> is the line \<open>.\<close>, which does not contain \<open>repositories found\<close>.
\<close>

theorem C4_no_repositories_line_counterexample:
  "Children (Build (FsPath True [''root'']) (Some []) None) = []
   \<and> Format no_color (Some (Build (FsPath True [''root'']) (Some []) None)) None = ''.'' @ newline
   \<and> \<not> strings_Contains
         (Format no_color (Some (Build (FsPath True [''root'']) (Some []) None)) None)
         ''repositories found''"
proof -
  have c: "Children (Build (FsPath True [''root'']) (Some []) None) = []"
    by (simp add: Build_def Let_def Children_sortTree Children_SortChildren)
  then have f: "Format no_color (Some (Build (FsPath True [''root'']) (Some []) None)) None
       = ''.'' @ newline"
    by (simp add: Format_def Let_def DefaultFormatOptions_def)
  show ?thesis unfolding f using c by (simp add: newline_def)
qed

section \<open>Properties of the scanner's tree\<close>

lemma map_mark_last:
  assumes "\<And>b x. f (set_IsLast b x) = f x"
  shows "map f (mark_last i n xs) = map f xs"
  by (induction xs arbitrary: i) (auto simp: assms)

lemma buildTree_fold:
  "fold (\<lambda>repo root. set_Children (Children root @ [TreeNode repo 1 False [] (g repo)]) root)
        rs root0
     = set_Children (Children root0 @ map (\<lambda>repo. TreeNode repo 1 False [] (g repo)) rs) root0"
proof (induction rs arbitrary: root0)
  case Nil
  then show ?case by (cases root0) (simp add: set_Children_def)
next
  case (Cons r rs)
  then show ?case by (simp add: set_Children_def)
qed

lemma buildTree_children:
  assumes "repositories s \<noteq> []"
  shows "\<exists>g. Children (buildTree s) =
           mark_last 0 (length (repositories s))
             (sort_key Name_of (map (\<lambda>repo. TreeNode repo 1 False [] (g repo)) (repositories s)))"
  using assms
  by (intro exI [of _ "\<lambda>repo. case filepath_Rel (rootPath s) (Path repo) of
                                  Inl err \<Rightarrow> path_String (Path repo) | Inr rel \<Rightarrow> rel"])
     (simp add: buildTree_def Let_def buildTree_fold Children_SortChildren)

lemma buildTree_flat:
  assumes "repositories s \<noteq> []"
  shows "Depth (buildTree s) = 0"
    and "mset (map Repository_of (Children (buildTree s))) = mset (repositories s)"
    and "\<forall>c \<in> set (Children (buildTree s)). Depth c = 1 \<and> Children c = []"
proof -
  show "Depth (buildTree s) = 0"
    using assms by (simp add: buildTree_def Let_def buildTree_fold)
  obtain g where ch: "Children (buildTree s) =
      mark_last 0 (length (repositories s))
        (sort_key Name_of (map (\<lambda>repo. TreeNode repo 1 False [] (g repo)) (repositories s)))"
    using buildTree_children [OF assms] by blast
  let ?nodes = "map (\<lambda>repo. TreeNode repo 1 False [] (g repo)) (repositories s)"
  have e1: "map Repository_of (Children (buildTree s)) = map Repository_of (sort_key Name_of ?nodes)"
    unfolding ch by (rule map_mark_last) simp
  have e2: "mset (map Repository_of (sort_key Name_of ?nodes)) = mset (map Repository_of ?nodes)"
    by (simp only: mset_map mset_sort)
  have e3: "map Repository_of ?nodes = repositories s"
    by (simp add: o_def)
  show "mset (map Repository_of (Children (buildTree s))) = mset (repositories s)"
    by (simp only: e1 e2 e3)
  have d: "map Depth (Children (buildTree s)) = map Depth (sort_key Name_of ?nodes)"
    unfolding ch by (rule map_mark_last) simp
  have c: "map Children (Children (buildTree s)) = map Children (sort_key Name_of ?nodes)"
    unfolding ch by (rule map_mark_last) simp
  have "\<forall>x \<in> set (sort_key Name_of ?nodes). Depth x = 1 \<and> Children x = []" by auto
  then have "\<forall>y \<in> set (map Depth (sort_key Name_of ?nodes)). y = 1"
    and "\<forall>y \<in> set (map Children (sort_key Name_of ?nodes)). y = []"
    by auto
  with d c have "\<forall>y \<in> set (map Depth (Children (buildTree s))). y = 1"
    and "\<forall>y \<in> set (map Children (Children (buildTree s))). y = []"
    by simp_all
  then show "\<forall>c \<in> set (Children (buildTree s)). Depth c = 1 \<and> Children c = []"
    by auto
qed

section \<open>Properties of the walk\<close>

lemma IsAbs_filepath_Join [simp]: "IsAbs (filepath_Join p name) = IsAbs p"
  by (simp add: filepath_Join_def)

lemma filepath_Join_proper:
  "name \<notin> {[], ''.'', ''..''} \<Longrightarrow> filepath_Join p name = FsPath (IsAbs p) (elems p @ [name])"
  by (simp add: filepath_Join_def)

lemma IsAbs_fold_Join [simp]:
  "IsAbs (fold (\<lambda>name q. filepath_Join q name) es q) = IsAbs q"
  by (induction es arbitrary: q) auto

lemma filepath_Abs_IsAbs: "filepath_Abs fs p = Inr a \<Longrightarrow> IsAbs a"
  by (auto simp: filepath_Abs_def split: if_splits option.splits)


lemma shouldVisit_fieldsD:
  "shouldVisit fs st p = (res, s2) \<Longrightarrow>
     repositories s2 = repositories st \<and> markerChecks s2 = markerChecks st
     \<and> walked s2 = walked st \<and> errors s2 = errors st \<and> rootPath s2 = rootPath st"
  by (auto simp: shouldVisit_def Let_def split: sum.splits option.splits if_splits)


lemma walkFunc_walked:
  "walkFunc fs ctx s p d err = (r, s') \<Longrightarrow> walked s' = walked s @ [p]"
  by (auto simp: walkFunc_def Let_def split: if_splits option.splits prod.splits
      dest!: shouldVisit_fieldsD)

lemma walkFunc_err:
  "walkFunc fs ctx s p d (Some e) = (r, s') \<Longrightarrow> r \<noteq> Continue"
  by (auto simp: walkFunc_def Let_def split: if_splits)

lemma walkFunc_effect:
  assumes "walkFunc fs ctx s p d err = (r, s')"
  shows "(repositories s' = repositories s \<and> markerChecks s' = markerChecks s
            \<and> (r = Continue \<longrightarrow> \<not> entry_IsDir d \<or> err \<noteq> None))
         \<or> (markerChecks s' = markerChecks s @ [p] \<and> fst (IsGitRepository fs p)
            \<and> (\<exists>rec. repositories s' = repositories s @ [rec] \<and> Path rec = p) \<and> r = SkipDir)
         \<or> (markerChecks s' = markerChecks s @ [p] \<and> \<not> fst (IsGitRepository fs p)
            \<and> repositories s' = repositories s \<and> r = Continue)"
  using assms
  by (auto simp: walkFunc_def Let_def split: if_splits option.splits prod.splits
      dest!: shouldVisit_fieldsD)

lemma walkFunc_inv:
  assumes inv: "scan_inv fs base s" and good: "good_path fs base p"
    and w: "walkFunc fs ctx s p d err = (r, s')"
  shows "scan_inv fs base s'"
    and "r = Continue \<Longrightarrow> entry_IsDir d \<Longrightarrow> err = None \<Longrightarrow> \<not> fst (IsGitRepository fs p)"
proof -
  note wk = walkFunc_walked [OF w]
  from walkFunc_effect [OF w] good inv wk show "scan_inv fs base s'"
    by (auto simp: scan_inv_def good_path_def)
  from walkFunc_effect [OF w]
  show "r = Continue \<Longrightarrow> entry_IsDir d \<Longrightarrow> err = None \<Longrightarrow> \<not> fst (IsGitRepository fs p)"
    by auto
qed

lemma good_path_child:
  assumes good: "good_path fs base p" and nr: "\<not> fst (IsGitRepository fs p)"
    and nm: "name \<notin> {[], ''.'', ''..''}"
  shows "good_path fs base (filepath_Join p name)"
proof -
  from good have abs: "IsAbs p" and pre: "prefix base (elems p)"
    and btw: "\<And>q. prefix base q \<Longrightarrow> strict_prefix q (elems p)
                \<Longrightarrow> \<not> fst (IsGitRepository fs (FsPath True q))"
    by (auto simp: good_path_def)
  have p: "p = FsPath True (elems p)" using abs by (cases p) simp
  have j: "filepath_Join p name = FsPath True (elems p @ [name])"
    using filepath_Join_proper [OF nm, of p] abs by simp
  have "\<not> fst (IsGitRepository fs (FsPath True q))"
    if "prefix base q" and "strict_prefix q (elems p @ [name])" for q
  proof (cases "q = elems p")
    case True
    with nr p show ?thesis by simp
  next
    case False
    with that(2) have "strict_prefix q (elems p)" by (auto simp: strict_prefix_def)
    with that(1) show ?thesis by (rule btw)
  qed
  moreover have "prefix base (elems p @ [name])" using pre by (simp add: prefix_prefix)
  ultimately show ?thesis unfolding j by (simp add: good_path_def)
qed

lemma walk_inv:
  "\<forall>r s'. walkDir fs ctx p d s = (r, s') \<longrightarrow> scan_inv fs base s \<longrightarrow> good_path fs base p
      \<longrightarrow> fs_all entry_names_ok d \<longrightarrow> scan_inv fs base s'"
  "\<forall>r s'. walkEntries fs ctx p es s = (r, s') \<longrightarrow> scan_inv fs base s \<longrightarrow> good_path fs base p
      \<longrightarrow> \<not> fst (IsGitRepository fs p)
      \<longrightarrow> (\<forall>(name, n) \<in> set es. name \<notin> {[], ''.'', ''..''} \<and> fs_all entry_names_ok n)
      \<longrightarrow> scan_inv fs base s'"
proof (induction fs ctx p d s and fs ctx p es s rule: walkDir_walkEntries.induct)
  case (1 fs ctx p ino s)
  then show ?case by (auto dest: walkFunc_inv(1))
next
  case (2 fs ctx p ino target s)
  then show ?case by (auto dest: walkFunc_inv(1))
next
  case (3 fs ctx p ino rerr entries s)
  show ?case
  proof (intro allI impI)
    fix r s'
    assume w: "walkDir fs ctx p (Dir ino rerr entries) s = (r, s')"
      and inv: "scan_inv fs base s" and good: "good_path fs base p"
      and nm: "fs_all entry_names_ok (Dir ino rerr entries)"
    obtain r1 s1 where w1: "walkFunc fs ctx s p (Some (Dir ino rerr entries)) None = (r1, s1)"
      by (cases "walkFunc fs ctx s p (Some (Dir ino rerr entries)) None") auto
    note i1 = walkFunc_inv [OF inv good w1]
    show "scan_inv fs base s'"
    proof (cases r1)
      case Continue
      with i1(2) have nr: "\<not> fst (IsGitRepository fs p)" by (simp add: entry_IsDir_def)
      show ?thesis
      proof (cases rerr)
        case None
        from w w1 Continue None have we: "walkEntries fs ctx p entries s1 = (r, s')" by simp
        from nm have es: "\<forall>(name, n) \<in> set entries.
            name \<notin> {[], ''.'', ''..''} \<and> fs_all entry_names_ok n"
          by (auto simp: entry_names_ok_def)
        from "3.IH"(1) [OF w1 [symmetric] Continue None] we i1(1) good nr es
        show ?thesis by blast
      next
        case (Some e)
        obtain r2 s2 where w2: "walkFunc fs ctx s1 p (Some (Dir ino rerr entries)) (Some e) = (r2, s2)"
          by (cases "walkFunc fs ctx s1 p (Some (Dir ino rerr entries)) (Some e)") auto
        from walkFunc_inv(1) [OF i1(1) good w2] have "scan_inv fs base s2" .
        moreover from w w1 Continue Some w2 walkFunc_err [OF w2] have "s' = s2"
          by (cases r2) auto
        ultimately show ?thesis by simp
      qed
    next
      case SkipDir
      with w w1 i1(1) show ?thesis by auto
    next
      case (Fail e)
      with w w1 i1(1) show ?thesis by auto
    qed
  qed
next
  case (4 fs ctx p s)
  then show ?case by simp
next
  case (5 fs ctx p name n rest s)
  show ?case
  proof (intro allI impI)
    fix r s'
    assume w: "walkEntries fs ctx p ((name, n) # rest) s = (r, s')"
      and inv: "scan_inv fs base s" and good: "good_path fs base p"
      and nr: "\<not> fst (IsGitRepository fs p)"
      and es: "\<forall>(name, n) \<in> set ((name, n) # rest).
                 name \<notin> {[], ''.'', ''..''} \<and> fs_all entry_names_ok n"
    obtain r1 s1 where w1: "walkDir fs ctx (filepath_Join p name) n s = (r1, s1)"
      by (cases "walkDir fs ctx (filepath_Join p name) n s") auto
    from es have nm: "name \<notin> {[], ''.'', ''..''}" and nn: "fs_all entry_names_ok n"
      and es': "\<forall>(name, n) \<in> set rest. name \<notin> {[], ''.'', ''..''} \<and> fs_all entry_names_ok n"
      by auto
    from "5.IH"(1) w1 inv good_path_child [OF good nr nm] nn have i1: "scan_inv fs base s1"
      by blast
    show "scan_inv fs base s'"
    proof (cases r1)
      case Continue
      with w w1 have "walkEntries fs ctx p rest s1 = (r, s')" by simp
      with "5.IH"(2) [OF w1 [symmetric] Continue] i1 good nr es' show ?thesis by blast
    next
      case SkipDir
      with w w1 i1 show ?thesis by auto
    next
      case (Fail e)
      with w w1 i1 show ?thesis by auto
    qed
  qed
qed

lemma map_of_entry: "map_of es name = Some n \<Longrightarrow> (name, n) \<in> set es"
  by (rule map_of_SomeD)

lemma resolve_fs_all:
  "resolve rt hops follow at cur rest = Inr (at', n) \<Longrightarrow> fs_all P rt \<Longrightarrow> fs_all P cur
     \<Longrightarrow> fs_all P n"
proof (induction rt hops follow at cur rest rule: resolve.induct)
  case (1 rt hops follow at cur)
  then show ?case by simp
next
  case (2 rt hops follow at cur name rest)
  from "2.prems"(1) obtain ino rerr entries c where cur: "cur = Dir ino rerr entries"
    and c: "map_of entries name = Some c"
    by (auto split: fsnode.splits option.splits)
  from c have "(name, c) \<in> set entries" by (rule map_of_SomeD)
  with "2.prems"(3) cur have pc: "fs_all P c" by auto
  show ?case
  proof (cases c)
    case (File fino)
    with "2.prems"(1) cur c have "resolve rt hops follow (at @ [name]) c rest = Inr (at', n)"
      by simp
    from "2.IH"(1) [OF cur c File this "2.prems"(2) pc] show ?thesis .
  next
    case (Symlink lino target)
    show ?thesis
    proof (cases "rest = [] \<and> \<not> follow")
      case True
      with "2.prems"(1) cur c Symlink pc show ?thesis by auto
    next
      case False
      with "2.prems"(1) cur c Symlink have h: "hops \<noteq> 0"
        and r: "resolve rt (hops - 1) follow [] rt (target @ rest) = Inr (at', n)"
        by (auto split: if_splits)
      from "2.IH"(2) [OF cur c Symlink False h r "2.prems"(2) "2.prems"(2)] show ?thesis .
    qed
  next
    case (Dir dino derr dentries)
    with "2.prems"(1) cur c have "resolve rt hops follow (at @ [name]) c rest = Inr (at', n)"
      by simp
    from "2.IH"(3) [OF cur c Dir this "2.prems"(2) pc] show ?thesis .
  qed
qed

lemma lstat_node_fs_all:
  "lstat_node fs p = Inr d \<Longrightarrow> fs_all P (fs_root fs) \<Longrightarrow> fs_all P d"
  by (auto simp: lstat_node_def split: sum.splits prod.splits dest: resolve_fs_all)

lemma example_scan_walk:
  "Scan_walk example_fs never_done (FsPath True [''home'', ''proj''])
     = Inr (FsPath True [''home'', ''proj''], example_state)"
  by code_simp



lemma example_names: "fs_all entry_names_ok (fs_root example_fs)"
  by code_simp



lemma WalkDir_inv:
  assumes inv: "scan_inv fs base s0" and good: "good_path fs base p"
    and names: "fs_all entry_names_ok (fs_root fs)"
    and w: "WalkDir fs ctx p s0 = (r, s)"
  shows "scan_inv fs base s"
proof (cases "lstat_node fs p")
  case (Inl e)
  obtain r1 s1 where w1: "walkFunc fs ctx s0 p None (Some e) = (r1, s1)"
    by (cases "walkFunc fs ctx s0 p None (Some e)") auto
  from walkFunc_inv(1) [OF inv good w1] have "scan_inv fs base s1" .
  moreover from w Inl w1 have "s = s1" by (cases r1) (auto simp: WalkDir_def)
  ultimately show ?thesis by simp
next
  case (Inr d)
  obtain r1 s1 where w1: "walkDir fs ctx p d s0 = (r1, s1)"
    by (cases "walkDir fs ctx p d s0") auto
  from lstat_node_fs_all [OF Inr names] have "fs_all entry_names_ok d" .
  with walk_inv(1) [of fs ctx p d s0 base] w1 inv good have "scan_inv fs base s1" by blast
  moreover from w Inr w1 have "s = s1" by (cases r1) (auto simp: WalkDir_def)
  ultimately show ?thesis by simp
qed

lemma Scan_walk_Inr:
  assumes "Scan_walk fs ctx rootOpt = Inr (absPath, s)"
  obtains info r where "os_Stat fs rootOpt = Inr info" "IsDir info"
    "filepath_Abs fs rootOpt = Inr absPath"
    "WalkDir fs ctx absPath
       \<lparr>rootPath = absPath, repositories = [], errors = [], visited = {},
        dirCount = 0, walked = [], markerChecks = []\<rparr> = (r, s)"
  using assms
  by (auto simp: Scan_walk_def Let_def split: sum.splits if_splits prod.splits walkres.splits)

lemma scan_inv_no_beneath:
  assumes "scan_inv fs base s" and "repo \<in> set (repositories s)" and "p \<in> set (walked s)"
  shows "\<not> beneath (Path repo) p"
proof
  assume b: "beneath (Path repo) p"
  from assms(1,2) have ra: "IsAbs (Path repo)" and rp: "prefix base (elems (Path repo))"
    and rr: "fst (IsGitRepository fs (Path repo))"
    by (auto simp: scan_inv_def)
  from assms(1,3) have "good_path fs base p" by (auto simp: scan_inv_def)
  moreover from b have "strict_prefix (elems (Path repo)) (elems p)" by (simp add: beneath_def)
  ultimately have "\<not> fst (IsGitRepository fs (FsPath True (elems (Path repo))))"
    using rp by (auto simp: good_path_def)
  moreover have "FsPath True (elems (Path repo)) = Path repo"
    using ra by (cases "Path repo") simp
  ultimately show False using rr by simp
qed

text \<open>
  Claim C2. In a file system whose directory entries have proper names, when the scan
  does not fail, no path that the walk function was called on, and so no path that was
  examined for repository markers, lies strictly beneath the path of a repository the
  scan recorded. The repositories of the result are those recorded.
\<close>

theorem C2_no_descent_into_repository:
  assumes names: "fs_all entry_names_ok (fs_root fs)"
    and scan: "Scan_walk fs ctx rootOpt = Inr (absPath, s)"
  shows "(\<exists>res. Scan fs ctx rootOpt = Inr res \<and> Repositories res = repositories s)
         \<and> set (markerChecks s) \<subseteq> set (walked s)
         \<and> (\<forall>repo \<in> set (repositories s). \<forall>p \<in> set (walked s). \<not> beneath (Path repo) p)"
proof -
  from scan obtain info r where abs: "filepath_Abs fs rootOpt = Inr absPath"
    and w: "WalkDir fs ctx absPath
       \<lparr>rootPath = absPath, repositories = [], errors = [], visited = {},
        dirCount = 0, walked = [], markerChecks = []\<rparr> = (r, s)"
    by (rule Scan_walk_Inr)
  have inv0: "scan_inv fs (elems absPath)
       \<lparr>rootPath = absPath, repositories = [], errors = [], visited = {},
        dirCount = 0, walked = [], markerChecks = []\<rparr>"
    by (simp add: scan_inv_def)
  have good: "good_path fs (elems absPath) absPath"
    using filepath_Abs_IsAbs [OF abs] by (auto simp: good_path_def strict_prefix_def)
  from WalkDir_inv [OF inv0 good names w] have inv: "scan_inv fs (elems absPath) s" .
  have "\<exists>res. Scan fs ctx rootOpt = Inr res \<and> Repositories res = repositories s"
    using scan by (simp add: Scan_def)
  moreover have "set (markerChecks s) \<subseteq> set (walked s)"
    using inv by (simp add: scan_inv_def)
  moreover have "\<forall>repo \<in> set (repositories s). \<forall>p \<in> set (walked s). \<not> beneath (Path repo) p"
    using scan_inv_no_beneath [OF inv] by blast
  ultimately show ?thesis by blast
qed

text \<open>
  The scan of the example file system records \<open>app\<close>; nothing beneath it was walked,
  so the repository nested in \<open>app/vendor/lib\<close> was not examined.
\<close>

theorem C2_no_descent_into_repository_witness:
  "fs_all entry_names_ok (fs_root example_fs)
   \<and> Scan_walk example_fs never_done (FsPath True [''home'', ''proj''])
        = Inr (FsPath True [''home'', ''proj''], example_state)
   \<and> FsPath True [''home'', ''proj'', ''app''] \<in> Path ` set (repositories example_state)
   \<and> set (markerChecks example_state) \<subseteq> set (walked example_state)
   \<and> list_all (\<lambda>repo. list_all (\<lambda>p. \<not> beneath (Path repo) p) (walked example_state))
        (repositories example_state)"
proof -
  have m: "FsPath True [''home'', ''proj'', ''app''] \<in> Path ` set (repositories example_state)"
    by (simp add: example_state_def)
  from C2_no_descent_into_repository [OF example_names example_scan_walk] m
    example_names example_scan_walk
  show ?thesis unfolding list_all_iff by blast
qed

lemma buildTree_empty:
  "repositories s = [] \<Longrightarrow> Children (buildTree s) = []"
  by (simp add: buildTree_def)

text \<open>
  Claim C10. When a scan succeeds and has found a repository, the tree of its result
  has a root of depth 0 whose children are exactly the repositories found, one node
  each, every one at depth 1 and without children of its own.
\<close>

theorem C10_scan_tree_flat:
  assumes "Scan fs ctx rootOpt = Inr res" and "Repositories res \<noteq> []"
  shows "Depth (Tree res) = 0
         \<and> mset (map Repository_of (Children (Tree res))) = mset (Repositories res)
         \<and> (\<forall>c \<in> set (Children (Tree res)). Depth c = 1 \<and> Children c = [])"
proof -
  from assms(1) obtain a s where s: "Scan_walk fs ctx rootOpt = Inr (a, s)"
    and res: "res = \<lparr>RootPath = a, Repositories = repositories s, Tree = buildTree s,
               TotalScanned = dirCount s, TotalRepos = int (length (repositories s)),
               Errors = errors s\<rparr>"
    by (auto simp: Scan_def split: sum.splits)
  from assms(2) res have ne: "repositories s \<noteq> []" by simp
  from buildTree_flat [OF ne] res show ?thesis by simp
qed

text \<open>
  The scan of the example file system finds \<open>deep/mirror.git\<close> two levels down; its
  node is a child of the root like the other.
\<close>

theorem C10_scan_tree_flat_witness:
  "Scan example_fs never_done (FsPath True [''home'', ''proj'']) = Inr example_result
   \<and> Repositories example_result \<noteq> []
   \<and> FsPath True [''home'', ''proj'', ''deep'', ''mirror.git'']
        \<in> Path ` set (Repositories example_result)
   \<and> Depth (Tree example_result) = 0
   \<and> mset (map Repository_of (Children (Tree example_result)))
        = mset (Repositories example_result)
   \<and> list_all (\<lambda>c. Depth c = 1 \<and> Children c = []) (Children (Tree example_result))"
proof -
  have a: "Scan example_fs never_done (FsPath True [''home'', ''proj'']) = Inr example_result"
    by (simp add: Scan_def example_scan_walk example_result_def)
  have b: "Repositories example_result \<noteq> []"
    by (simp add: example_result_def example_state_def)
  have c: "FsPath True [''home'', ''proj'', ''deep'', ''mirror.git'']
        \<in> Path ` set (Repositories example_result)"
    by (simp add: example_result_def example_state_def)
  from C10_scan_tree_flat [OF a b] a b c show ?thesis unfolding list_all_iff by blast
qed














section \<open>Properties of the concurrent extraction\<close>

lemma batch_inv_init: "batch_inv P ext (batch_init P)"
  by (simp add: batch_inv_def batch_init_def)

lemma batch_invD:
  assumes "batch_inv P ext s"
  shows "distinct (map fst (results s))"
    and "set (map fst (results s)) \<inter> dom (statuses s) = {}"
    and "set (map fst (results s)) \<union> dom (statuses s)
          = {p \<in> P. place_of s p = Sent \<or> place_of s p = Finished}"
    and "\<forall>p st. (p, st) \<in> set (results s) \<longrightarrow> st = ext p"
    and "\<forall>p st. statuses s p = Some st \<longrightarrow> st = ext p"
    and "results_closed s \<longrightarrow> (\<forall>p \<in> P. place_of s p = Finished)"
    and "returned s \<longrightarrow> (\<forall>p \<in> P. place_of s p = Finished) \<and> results s = []"
  using assms unfolding batch_inv_def by simp_all

lemma batch_inv_step:
  assumes st: "step C P ext s s'" and inv: "batch_inv P ext s"
  shows "batch_inv P ext s'"
proof -
  note d = batch_invD [OF inv]
  from st show ?thesis
  proof (cases rule: step.cases)
    case (acquire p)
    have e: "{q \<in> P. ((place_of s)(p := Running)) q = Sent \<or> ((place_of s)(p := Running)) q = Finished}
        = {q \<in> P. place_of s q = Sent \<or> place_of s q = Finished}"
      using acquire(3) by auto
    show ?thesis unfolding acquire(1) batch_inv_def
    proof (intro conjI, goal_cases)
      case 1 show ?case using d(1) by simp
    next
      case 2 show ?case using d(2) by simp
    next
      case 3 show ?case using d(3) e by simp
    next
      case 4 show ?case using d(4) by simp
    next
      case 5 show ?case using d(5) by simp
    next
      case 6 show ?case using d(6) acquire(3) by auto
    next
      case 7 show ?case using d(7) acquire(3) by auto
    qed
  next
    case (send p)
    have "p \<notin> set (map fst (results s)) \<union> dom (statuses s)"
      unfolding d(3) using send(3) by simp
    then have np: "p \<notin> set (map fst (results s))" and nd: "p \<notin> dom (statuses s)"
      by blast+
    have e: "{q \<in> P. ((place_of s)(p := Sent)) q = Sent \<or> ((place_of s)(p := Sent)) q = Finished}
        = insert p {q \<in> P. place_of s q = Sent \<or> place_of s q = Finished}"
      using send(2) by auto
    show ?thesis unfolding send(1) batch_inv_def
    proof (intro conjI, goal_cases)
      case 1 show ?case using d(1) np by simp
    next
      case 2 show ?case using d(2) nd by simp
    next
      case 3
      have "set (map fst (results s @ [(p, ext p)])) \<union> dom (statuses s)
          = insert p (set (map fst (results s)) \<union> dom (statuses s))" by auto
      then show ?case using d(3) e by simp
    next
      case 4 show ?case using d(4) by auto
    next
      case 5 show ?case using d(5) by simp
    next
      case 6 show ?case using d(6) send(2,3) by auto
    next
      case 7 show ?case using d(7) send(2,3) by auto
    qed
  next
    case (release p)
    have e: "{q \<in> P. ((place_of s)(p := Finished)) q = Sent \<or> ((place_of s)(p := Finished)) q = Finished}
        = {q \<in> P. place_of s q = Sent \<or> place_of s q = Finished}"
      using release(2,3) by auto
    show ?thesis unfolding release(1) batch_inv_def
    proof (intro conjI, goal_cases)
      case 1 show ?case using d(1) by simp
    next
      case 2 show ?case using d(2) by simp
    next
      case 3 show ?case using d(3) e by simp
    next
      case 4 show ?case using d(4) by simp
    next
      case 5 show ?case using d(5) by simp
    next
      case 6 show ?case using d(6) by auto
    next
      case 7 show ?case using d(7) by auto
    qed
  next
    case close
    show ?thesis unfolding close(1) batch_inv_def
    proof (intro conjI, goal_cases)
      case 1 show ?case using d(1) by simp
    next
      case 2 show ?case using d(2) by simp
    next
      case 3 show ?case using d(3) by simp
    next
      case 4 show ?case using d(4) by simp
    next
      case 5 show ?case using d(5) by simp
    next
      case 6 show ?case using close(2) by auto
    next
      case 7 show ?case using close(4) by simp
    qed
  next
    case (collect p st rest)
    have dr: "distinct (map fst rest)" and pr: "p \<notin> set (map fst rest)"
      using d(1) collect(2) by auto
    have pe: "st = ext p" using d(4) collect(2) by auto
    show ?thesis unfolding collect(1) batch_inv_def
    proof (intro conjI, goal_cases)
      case 1 show ?case using dr by simp
    next
      case 2
      have "set (map fst rest) \<inter> dom (statuses s) = {}" using d(2) collect(2) by auto
      then show ?case using pr by auto
    next
      case 3
      have "set (map fst rest) \<union> dom ((statuses s)(p \<mapsto> st))
          = set (map fst (results s)) \<union> dom (statuses s)"
        using collect(2) by auto
      then show ?case using d(3) by simp
    next
      case 4 show ?case using d(4) collect(2) by auto
    next
      case 5 show ?case using d(5) pe by auto
    next
      case 6 show ?case using d(6) by simp
    next
      case 7 show ?case using collect(3) by simp
    qed
  next
    case return
    show ?thesis unfolding return(1) batch_inv_def
    proof (intro conjI, goal_cases)
      case 1 show ?case using d(1) by simp
    next
      case 2 show ?case using d(2) by simp
    next
      case 3 show ?case using d(3) by simp
    next
      case 4 show ?case using d(4) by simp
    next
      case 5 show ?case using d(5) by simp
    next
      case 6 show ?case using d(6) by simp
    next
      case 7 show ?case using d(6) return(2,3) by simp
    qed
  qed
qed


lemma batch_reachable_inv:
  "batch_reachable C P ext s \<Longrightarrow> batch_inv P ext s"
  unfolding batch_reachable_def
  by (induction rule: rtranclp_induct) (auto intro: batch_inv_init batch_inv_step)

lemma holders_step:
  assumes st: "step C P ext s s'" and fin: "finite P"
    and b: "int (card (holders P s)) \<le> C"
  shows "int (card (holders P s')) \<le> C"
proof -
  have fh: "finite (holders P s)" using fin by (simp add: holders_def)
  from st show ?thesis
  proof (cases rule: step.cases)
    case (acquire p)
    have "holders P s' = insert p (holders P s)"
      unfolding acquire(1) using acquire(2) by (auto simp: holders_def)
    moreover have "p \<notin> holders P s" using acquire(3) by (simp add: holders_def)
    ultimately have "card (holders P s') = Suc (card (holders P s))" using fh by simp
    with acquire(4) show ?thesis by simp
  next
    case (send p)
    have "holders P s' = holders P s"
      unfolding send(1) using send(2,3) by (auto simp: holders_def)
    with b show ?thesis by simp
  next
    case (release p)
    have "holders P s' \<subseteq> holders P s"
      unfolding release(1) by (auto simp: holders_def split: if_splits)
    then have "card (holders P s') \<le> card (holders P s)" using fh by (rule card_mono [rotated])
    with b show ?thesis by simp
  next
    case close
    then have "holders P s' = holders P s" by (simp add: holders_def)
    with b show ?thesis by simp
  next
    case (collect p st rest)
    then have "holders P s' = holders P s" by (simp add: holders_def)
    with b show ?thesis by simp
  next
    case return
    then have "holders P s' = holders P s" by (simp add: holders_def)
    with b show ?thesis by simp
  qed
qed

lemma holders_bound:
  assumes "batch_reachable C P ext s" and "finite P" and "0 \<le> C"
  shows "int (card (holders P s)) \<le> C"
  using assms(1) unfolding batch_reachable_def
proof (induction rule: rtranclp_induct)
  case base
  show ?case using assms(3) by (simp add: holders_def batch_init_def)
next
  case (step y z)
  from holders_step [OF step(2) assms(2) step(3)] show ?case .
qed

lemma weight_update:
  assumes "finite P" and "p \<in> P"
  shows "(\<Sum>q \<in> P. place_weight (((place_of s)(p := w)) q))
           = place_weight w + (\<Sum>q \<in> P - {p}. place_weight (place_of s q))"
    and "(\<Sum>q \<in> P. place_weight (place_of s q))
           = place_weight (place_of s p) + (\<Sum>q \<in> P - {p}. place_weight (place_of s q))"
proof -
  have "(\<Sum>q \<in> P. place_weight (((place_of s)(p := w)) q))
      = place_weight (((place_of s)(p := w)) p)
        + (\<Sum>q \<in> P - {p}. place_weight (((place_of s)(p := w)) q))"
    using assms by (rule sum.remove)
  also have "(\<Sum>q \<in> P - {p}. place_weight (((place_of s)(p := w)) q))
      = (\<Sum>q \<in> P - {p}. place_weight (place_of s q))"
    by (rule sum.cong) auto
  finally show "(\<Sum>q \<in> P. place_weight (((place_of s)(p := w)) q))
           = place_weight w + (\<Sum>q \<in> P - {p}. place_weight (place_of s q))"
    by simp
  show "(\<Sum>q \<in> P. place_weight (place_of s q))
           = place_weight (place_of s p) + (\<Sum>q \<in> P - {p}. place_weight (place_of s q))"
    using assms by (rule sum.remove)
qed

lemma step_measure:
  assumes st: "step C P ext s s'" and fin: "finite P"
  shows "batch_measure P s' < batch_measure P s"
  using st
proof (cases rule: step.cases)
  case (acquire p)
  show ?thesis unfolding acquire(1) batch_measure_def
    using weight_update(1) [OF fin acquire(2), of s Running] weight_update(2) [OF fin acquire(2), of s] acquire(3)
    by (simp add: place_weight_def)
next
  case (send p)
  show ?thesis unfolding send(1) batch_measure_def
    using weight_update(1) [OF fin send(2), of s Sent] weight_update(2) [OF fin send(2), of s] send(3)
    by (simp add: place_weight_def)
next
  case (release p)
  show ?thesis unfolding release(1) batch_measure_def
    using weight_update(1) [OF fin release(2), of s Finished] weight_update(2) [OF fin release(2), of s] release(3)
    by (simp add: place_weight_def)
next
  case close
  then show ?thesis by (simp add: batch_measure_def)
next
  case (collect p st rest)
  then show ?thesis by (simp add: batch_measure_def)
next
  case return
  then show ?thesis by (simp add: batch_measure_def)
qed

lemma step_wf:
  assumes "finite P"
  shows "wf {(s', s). step C P ext s s'}"
proof (rule wf_subset)
  show "wf (measure (batch_measure P))" by simp
  show "{(s', s). step C P ext s s'} \<subseteq> measure (batch_measure P)"
    using step_measure [OF _ assms] by auto
qed

lemma batch_progress:
  assumes inv: "batch_inv P ext s" and fin: "finite P" and C: "0 < C"
    and nr: "\<not> returned s"
  shows "\<exists>s'. step C P ext s s'"
proof -
  note d = batch_invD [OF inv]
  consider (run) p where "p \<in> P" "place_of s p = Running"
    | (snt) p where "p \<in> P" "place_of s p = Sent"
        "\<forall>q \<in> P. place_of s q \<noteq> Running"
    | (wait) p where "p \<in> P" "place_of s p = Waiting"
        "\<forall>q \<in> P. place_of s q \<noteq> Running" "\<forall>q \<in> P. place_of s q \<noteq> Sent"
    | (fin) "\<forall>q \<in> P. place_of s q = Finished"
  proof -
    have "\<forall>q \<in> P. place_of s q = Finished" if "\<forall>q \<in> P. place_of s q \<noteq> Running"
      "\<forall>q \<in> P. place_of s q \<noteq> Sent" "\<forall>q \<in> P. place_of s q \<noteq> Waiting"
    proof
      fix q assume "q \<in> P"
      with that show "place_of s q = Finished" by (cases "place_of s q") auto
    qed
    then show ?thesis using run snt wait fin by blast
  qed
  then show ?thesis
  proof cases
    case run
    let ?D = "{q \<in> P. place_of s q = Sent \<or> place_of s q = Finished}"
    have "p \<notin> ?D" using run(2) by simp
    moreover have "?D \<subseteq> P" by auto
    ultimately have "?D \<subset> P" using run(1) by blast
    then have lt: "card ?D < card P" using fin by (rule psubset_card_mono [rotated])
    have "length (results s) = card (set (map fst (results s)))"
      using d(1) by (metis distinct_card length_map)
    also have "\<dots> \<le> card ?D"
    proof (rule card_mono)
      show "finite ?D" using fin by simp
      show "set (map fst (results s)) \<subseteq> ?D" using d(3) by blast
    qed
    finally have "length (results s) < card P" using lt by simp
    from step.send [OF run this] show ?thesis by blast
  next
    case snt
    from step.release [OF snt(1,2)] show ?thesis by blast
  next
    case wait
    have "holders P s = {}" using wait(3,4) by (auto simp: holders_def)
    then have "int (card (holders P s)) < C" using C by simp
    from step.acquire [OF wait(1,2) this] show ?thesis by blast
  next
    case fin
    then have all: "place_of s ` P \<subseteq> {Finished}" by auto
    show ?thesis
    proof (cases "results_closed s")
      case False
      from step.close [OF all False nr] show ?thesis by blast
    next
      case True
      show ?thesis
      proof (cases "results s")
        case Nil
        from step.return [OF Nil True nr] show ?thesis by blast
      next
        case (Cons r rest)
        obtain p st where "r = (p, st)" by (cases r)
        with Cons have "results s = (p, st) # rest" by simp
        from step.collect [OF this nr] show ?thesis by blast
      qed
    qed
  qed
qed

lemma batch_returned_map:
  assumes inv: "batch_inv P ext s" and r: "returned s"
  shows "dom (statuses s) = P" and "\<forall>p \<in> P. statuses s p = Some (ext p)"
proof -
  note d = batch_invD [OF inv]
  from d(7) r have f: "\<forall>p \<in> P. place_of s p = Finished" and e: "results s = []" by auto
  from d(3) e have "dom (statuses s) = {p \<in> P. place_of s p = Sent \<or> place_of s p = Finished}"
    by simp
  also have "\<dots> = P" using f by auto
  finally show dm: "dom (statuses s) = P" .
  show "\<forall>p \<in> P. statuses s p = Some (ext p)"
  proof
    fix p assume "p \<in> P"
    with dm obtain st where st: "statuses s p = Some st" by auto
    with d(5) have "st = ext p" by blast
    with st show "statuses s p = Some (ext p)" by simp
  qed
qed

text \<open>
  With a limit of at least one, a run of \<open>ExtractBatch\<close> on finitely many paths whose
  context is never done never has more than the limit of workers holding a slot, can
  always take a step until the map is returned, takes finitely many steps, and returns a
  map with exactly one entry for each path, the status \<open>Extract\<close> gave for it.
\<close>

lemma ExtractBatch_complete:
  assumes "finite P" and "0 < C" and "batch_reachable C P ext s"
  shows "int (card (holders P s)) \<le> C"
    and "\<not> returned s \<Longrightarrow> \<exists>s'. step C P ext s s'"
    and "returned s \<Longrightarrow> dom (statuses s) = P \<and> (\<forall>p \<in> P. statuses s p = Some (ext p))"
    and "wf {(s', s). step C P ext s s'}"
proof -
  note inv = batch_reachable_inv [OF assms(3)]
  show "int (card (holders P s)) \<le> C"
    using holders_bound [OF assms(3) assms(1)] assms(2) by simp
  show "\<not> returned s \<Longrightarrow> \<exists>s'. step C P ext s s'"
    using batch_progress [OF inv assms(1,2)] by simp
  show "returned s \<Longrightarrow> dom (statuses s) = P \<and> (\<forall>p \<in> P. statuses s p = Some (ext p))"
    using batch_returned_map [OF inv] by simp
  show "wf {(s', s). step C P ext s s'}" using step_wf [OF assms(1)] .
qed

text \<open>
  Claim C3 fails on the code for a limit of zero. With \<open>MaxConcurrency = 0\<close>, one path
  and a context that is never done, \<open>ExtractBatch\<close> has not returned at the start and
  no step is possible: the worker waits for the semaphore for ever, so no map is
  returned.
\<close>

theorem C3_zero_limit_deadlock:
  "\<not> returned (batch_init {example_path})
   \<and> \<not> (\<exists>s'. step 0 {example_path} ext (batch_init {example_path}) s')"
proof
  show "\<not> returned (batch_init {example_path})" by (simp add: batch_init_def)
  show "\<not> (\<exists>s'. step 0 {example_path} ext (batch_init {example_path}) s')"
  proof
    assume "\<exists>s'. step 0 {example_path} ext (batch_init {example_path}) s'"
    then obtain s' where "step 0 {example_path} ext (batch_init {example_path}) s'" ..
    then show False
      by (cases rule: step.cases) (simp_all add: batch_init_def)
  qed
qed

text \<open>The same for the status that is all zero.\<close>

theorem C3_zero_limit_deadlock_witness:
  "\<not> returned (batch_init {example_path})
   \<and> \<not> (\<exists>s'. step 0 {example_path} (\<lambda>p. GitStatus_zero) (batch_init {example_path}) s')"
  using C3_zero_limit_deadlock [of "\<lambda>p. GitStatus_zero"] .

end
